theory Spec2Isabelle
  imports Main "HOL-Library.AList"
begin

section \<open>JSON values and the Python operations the program applies to them\<close>

text \<open>
  Every value the program handles comes out of \<^verbatim>\<open>response.json()\<close>: a decoded JSON document.
  Objects are Python dicts, kept as association lists in insertion order (a decoded object
  lists each key once); numbers are integers, as every number of the queried API is.
\<close>

datatype json =
    JNull
  | JBool bool
  | JInt int
  | JStr string
  | JArr "json list"
  | JObj "(string \<times> json) list"

text \<open>The exceptions that can leave the functions of \<^verbatim>\<open>utils.py\<close> and \<^verbatim>\<open>upcoming_sequels.py\<close>.\<close>

datatype error =
    HTTPError int
  | RequestFailed string
  | JSONDecodeError
  | KeyError string
  | TypeError
  | ValueError
  | IndexError
  | AttributeError
  | RuntimeError
  | AssertionError string

text \<open>
  A call either returns, raises, or never comes back: the network is a finite script of
  answers (below), and a call that still waits for an answer when the script is over
  \<open>Hangs\<close>.
\<close>

datatype 'a res = Returns 'a | Raises error | Hangs

text \<open>Truth value of a JSON value, as \<^verbatim>\<open>if x\<close>, \<^verbatim>\<open>not x\<close>, \<^verbatim>\<open>assert x\<close> and \<^verbatim>\<open>x or y\<close> take it.\<close>

fun truthy :: "json \<Rightarrow> bool" where
  "truthy JNull = False"
| "truthy (JBool b) = b"
| "truthy (JInt i) = (i \<noteq> 0)"
| "truthy (JStr s) = (s \<noteq> [])"
| "truthy (JArr xs) = (xs \<noteq> [])"
| "truthy (JObj kvs) = (kvs \<noteq> [])"

text \<open>\<^verbatim>\<open>len(x)\<close>: defined on objects, arrays and strings, a TypeError elsewhere.\<close>

fun py_len :: "json \<Rightarrow> error + nat" where
  "py_len (JObj kvs) = Inr (length kvs)"
| "py_len (JArr xs) = Inr (length xs)"
| "py_len (JStr s) = Inr (length s)"
| "py_len _ = Inl TypeError"

fun contains_str :: "string \<Rightarrow> string \<Rightarrow> bool" where
  "contains_str p [] = (p = [])"
| "contains_str p (c # cs) = (take (length p) (c # cs) = p \<or> contains_str p cs)"

text \<open>
  \<^verbatim>\<open>k in x\<close> for a string \<open>k\<close>: a key of an object, an element of an array, a substring of
  a string; a TypeError on null, booleans and numbers.
\<close>

fun py_in :: "string \<Rightarrow> json \<Rightarrow> error + bool" where
  "py_in k (JObj kvs) = Inr (map_of kvs k \<noteq> None)"
| "py_in k (JArr xs) = Inr (JStr k \<in> set xs)"
| "py_in k (JStr s) = Inr (contains_str k s)"
| "py_in k _ = Inl TypeError"

text \<open>\<^verbatim>\<open>x[k]\<close> for a string \<open>k\<close>: only an object can be indexed by a string.\<close>

fun py_getitem :: "json \<Rightarrow> string \<Rightarrow> error + json" where
  "py_getitem (JObj kvs) k = (case map_of kvs k of Some v \<Rightarrow> Inr v | None \<Rightarrow> Inl (KeyError k))"
| "py_getitem _ k = Inl TypeError"

text \<open>
  Iteration (\<^verbatim>\<open>for y in x\<close>, \<^verbatim>\<open>list.extend(x)\<close>): the elements of an array, the keys of an
  object, the characters of a string.
\<close>

fun py_iter :: "json \<Rightarrow> error + json list" where
  "py_iter (JArr xs) = Inr xs"
| "py_iter (JObj kvs) = Inr (map (\<lambda>kv. JStr (fst kv)) kvs)"
| "py_iter (JStr s) = Inr (map (\<lambda>c. JStr [c]) s)"
| "py_iter _ = Inl TypeError"

text \<open>
  \<^verbatim>\<open>int(s)\<close> on a header value: an optional sign and decimal digits (surrounding blanks and
  digit separators are not modelled), a ValueError otherwise.
\<close>

definition digit :: "char \<Rightarrow> nat option" where
  "digit c = (let n = (of_char c :: nat) in if 48 \<le> n \<and> n \<le> 57 then Some (n - 48) else None)"

fun digits_val :: "nat \<Rightarrow> string \<Rightarrow> nat option" where
  "digits_val acc [] = Some acc"
| "digits_val acc (c # cs) =
     (case digit c of None \<Rightarrow> None | Some d \<Rightarrow> digits_val (10 * acc + d) cs)"

definition unsigned_int :: "string \<Rightarrow> error + int" where
  "unsigned_int s =
     (if s = [] then Inl ValueError
      else case digits_val 0 s of None \<Rightarrow> Inl ValueError | Some n \<Rightarrow> Inr (int n))"

definition py_int :: "string \<Rightarrow> error + int" where
  "py_int s =
     (case s of
        [] \<Rightarrow> Inl ValueError
      | c # cs \<Rightarrow>
          if c = CHR ''-'' then
            (case unsigned_int cs of Inl e \<Rightarrow> Inl e | Inr n \<Rightarrow> Inr (- n))
          else if c = CHR ''+'' then unsigned_int cs
          else unsigned_int (c # cs))"

section \<open>The network and the program state\<close>

text \<open>
  What \<^verbatim>\<open>requests.post\<close> gives back: a response, or an exception, known by the string of
  its type (the program tests \<^verbatim>\<open>str(type(e))\<close>). A response has its status, its headers
  (names as the program spells them) and its body, \<open>None\<close> when the body is not JSON.
\<close>

record response =
  status_code :: int
  headers :: "(string \<times> string) list"
  body :: "json option"

datatype post_result = Response response | Exception string

text \<open>
  The network is the script of its answers: the \<open>n\<close>-th element answers the \<open>n\<close>-th POST of
  the run, as a function of the JSON that was posted.
\<close>

type_synonym net = "(json \<Rightarrow> post_result) list"

text \<open>
  The effects of the program, in order: every POST, every sleep (milliseconds), the status
  line of a rate-limit wait (the seconds it announces) and its erasure, the printed
  \<^verbatim>\<open>errors\<close> field, and the lines of the report: a blank line, the heading of a season
  (season and year), the rule under it, the title of a show (the value given to
  \<^verbatim>\<open>print\<close>) and the final count of queries.
\<close>

datatype event =
    Post json
  | Sleep_ms int
  | Print_status int
  | Erase_status
  | Print_errors json
  | Print_blank
  | Print_season string int
  | Print_rule
  | Print_title json
  | Print_total nat

text \<open>\<^verbatim>\<open>safe_post_request.total_queries\<close> and the effects so far.\<close>

record st =
  total_queries :: nat
  trace :: "event list"

definition emit :: "event list \<Rightarrow> st \<Rightarrow> st" where
  "emit evs s = s\<lparr>trace := trace s @ evs\<rparr>"

section \<open>Request Transport: \<^verbatim>\<open>safe_post_request\<close>\<close>

text \<open>
  \<^verbatim>\<open>response.ok\<close> of the requests library: false exactly when \<^verbatim>\<open>raise_for_status\<close> raises,
  that is for a status from 400 to 599.
\<close>

definition ok :: "response \<Rightarrow> bool" where
  "ok r = (\<not> (400 \<le> status_code r \<and> status_code r < 600))"

text \<open>
  The body of the loop after a response arrived: with a \<^verbatim>\<open>Retry-After\<close> header, sleep that
  many seconds plus one (announcing it when verbose); without, sleep a tenth of a second.
\<close>

definition rate_limit_wait :: "bool \<Rightarrow> response \<Rightarrow> error + event list" where
  "rate_limit_wait verbose r =
     (case map_of (headers r) ''Retry-After'' of
        Some v \<Rightarrow>
          (case py_int v of
             Inl e \<Rightarrow> Inl e
           | Inr n \<Rightarrow>
               Inr ((if verbose then [Print_status (n + 1)] else [])
                    @ [Sleep_ms ((n + 1) * 1000)]
                    @ (if verbose then [Erase_status] else [])))
      | None \<Rightarrow> Inr [Sleep_ms 100])"

text \<open>
  The code after the loop, on the final response: count the query, then either print the
  \<^verbatim>\<open>errors\<close> field (if any) and raise for the status, or return the \<^verbatim>\<open>data\<close> field.
\<close>

definition deliver :: "response \<Rightarrow> st \<Rightarrow> json res \<times> st" where
  "deliver r s =
     (let s1 = s\<lparr>total_queries := total_queries s + 1\<rparr> in
      if \<not> ok r then
        (case body r of
           None \<Rightarrow> (Raises JSONDecodeError, s1)
         | Some b \<Rightarrow>
             (case py_in ''errors'' b of
                Inl e \<Rightarrow> (Raises e, s1)
              | Inr False \<Rightarrow> (Raises (HTTPError (status_code r)), s1)
              | Inr True \<Rightarrow>
                  (case py_getitem b ''errors'' of
                     Inl e \<Rightarrow> (Raises e, s1)
                   | Inr errs \<Rightarrow>
                       (Raises (HTTPError (status_code r)), emit [Print_errors errs] s1))))
      else
        (case body r of
           None \<Rightarrow> (Raises JSONDecodeError, s1)
         | Some b \<Rightarrow>
             (case py_getitem b ''data'' of
                Inl e \<Rightarrow> (Raises e, s1)
              | Inr d \<Rightarrow> (Returns d, s1))))"

text \<open>
  The retry loop. Each round posts the same JSON. A pyodide exception is taken for a rate
  limit: wait 61 seconds and go round again; any other exception is raised again. After a
  response and its wait, the loop goes round again exactly when the status is 429.
\<close>

fun safe_post_request :: "json \<Rightarrow> bool \<Rightarrow> net \<Rightarrow> st \<Rightarrow> json res \<times> net \<times> st" where
  "safe_post_request post_json verbose [] s = (Hangs, [], s)"
| "safe_post_request post_json verbose (f # fs) s =
     (let s1 = emit [Post post_json] s in
      case f post_json of
        Exception ty \<Rightarrow>
          if ty = ''<class 'pyodide.JsException'>'' then
            safe_post_request post_json verbose fs
              (emit [Print_status 61, Sleep_ms 61000, Erase_status] s1)
          else (Raises (RequestFailed ty), fs, s1)
      | Response r \<Rightarrow>
          (case rate_limit_wait verbose r of
             Inl e \<Rightarrow> (Raises e, fs, s1)
           | Inr evs \<Rightarrow>
               if status_code r = 429 then safe_post_request post_json verbose fs (emit evs s1)
               else (case deliver r (emit evs s1) of (x, s2) \<Rightarrow> (x, fs, s2))))"

section \<open>Pagination Driver: \<^verbatim>\<open>depaginated_request\<close>\<close>

definition MAX_PAGE_SIZE :: int where
  "MAX_PAGE_SIZE = 50"

text \<open>
  The inner loop: unwrap until \<^verbatim>\<open>pageInfo\<close> is in the value. On an object, that is a key
  test, then the two assertions, then the value of the only key. An array or a string
  goes through the same tests (\<^verbatim>\<open>in\<close>, truth value, \<^verbatim>\<open>len\<close>); with one element left,
  \<^verbatim>\<open>x[next(iter(x))]\<close> indexes the array by its own element, which gives the element for
  \<^verbatim>\<open>0\<close>, \<^verbatim>\<open>-1\<close> and \<^verbatim>\<open>False\<close> (and the next \<^verbatim>\<open>in\<close> test on it is a TypeError), an
  IndexError for any other number, a TypeError otherwise; a string cannot be indexed
  by a string. On null, booleans and numbers the \<^verbatim>\<open>in\<close> test is a TypeError.
\<close>

fun unwrap :: "json \<Rightarrow> error + json" where
  "unwrap (JObj kvs) =
     (if map_of kvs ''pageInfo'' \<noteq> None then Inr (JObj kvs)
      else case kvs of
        [] \<Rightarrow> Inl (AssertionError ''Could not find pageInfo in paginated request.'')
      | [(k, v)] \<Rightarrow> unwrap v
      | _ \<Rightarrow> Inl (AssertionError ''Cannot de-paginate query with multiple returned fields.''))"
| "unwrap (JArr xs) =
     (if JStr ''pageInfo'' \<in> set xs then Inr (JArr xs)
      else case xs of
        [] \<Rightarrow> Inl (AssertionError ''Could not find pageInfo in paginated request.'')
      | [x] \<Rightarrow>
          (case x of
             JInt i \<Rightarrow> if i = 0 \<or> i = - 1 then Inl TypeError else Inl IndexError
           | JBool b \<Rightarrow> if b then Inl IndexError else Inl TypeError
           | _ \<Rightarrow> Inl TypeError)
      | _ \<Rightarrow> Inl (AssertionError ''Cannot de-paginate query with multiple returned fields.''))"
| "unwrap (JStr s) =
     (if contains_str ''pageInfo'' s then Inr (JStr s)
      else case s of
        [] \<Rightarrow> Inl (AssertionError ''Could not find pageInfo in paginated request.'')
      | [c] \<Rightarrow> Inl TypeError
      | _ \<Rightarrow> Inl (AssertionError ''Cannot de-paginate query with multiple returned fields.''))"
| "unwrap _ = Inl TypeError"

text \<open>\<^verbatim>\<open>x.items()\<close>: only an object has it.\<close>

fun py_items :: "json \<Rightarrow> error + (string \<times> json) list" where
  "py_items (JObj kvs) = Inr kvs"
| "py_items _ = Inl AttributeError"

text \<open>
  \<^verbatim>\<open>next(v for k, v in items if k != 'pageInfo')\<close>: the value of the first other key; the
  StopIteration of an exhausted search leaves a coroutine as a RuntimeError.
\<close>

definition other_value :: "(string \<times> json) list \<Rightarrow> error + json" where
  "other_value kvs =
     (case filter (\<lambda>kv. fst kv \<noteq> ''pageInfo'') kvs of
        [] \<Rightarrow> Inl RuntimeError
      | kv # _ \<Rightarrow> Inr (snd kv))"

text \<open>
  One page, from the data the transport returned to the end of the loop body: the
  elements to append to \<^verbatim>\<open>out_list\<close> and whether \<^verbatim>\<open>hasNextPage\<close> holds.
\<close>

definition extract_page :: "json \<Rightarrow> error + (json list \<times> bool)" where
  "extract_page response_data =
     (case unwrap response_data of
        Inl e \<Rightarrow> Inl e
      | Inr d \<Rightarrow>
     (case py_len d of
        Inl e \<Rightarrow> Inl e
      | Inr n \<Rightarrow>
          if n \<noteq> 2 then
            Inl (AssertionError ''Cannot de-paginate query with multiple returned fields.'')
          else
     (case py_items d of
        Inl e \<Rightarrow> Inl e
      | Inr kvs \<Rightarrow>
     (case other_value kvs of
        Inl e \<Rightarrow> Inl e
      | Inr v \<Rightarrow>
     (case py_iter v of
        Inl e \<Rightarrow> Inl e
      | Inr xs \<Rightarrow>
     (case py_getitem d ''pageInfo'' of
        Inl e \<Rightarrow> Inl e
      | Inr page_info \<Rightarrow>
     (case py_getitem page_info ''hasNextPage'' of
        Inl e \<Rightarrow> Inl e
      | Inr h \<Rightarrow> Inr (xs, truthy h))))))))"

lemma safe_post_request_consumes:
  "safe_post_request q v nt s = (x, nt', s') \<Longrightarrow> x \<noteq> Hangs \<Longrightarrow> length nt' < length nt"
proof (induction nt arbitrary: s)
  case Nil
  then show ?case by simp
next
  case (Cons f fs)
  then show ?case
    by (fastforce simp: Let_def split: post_result.splits if_splits sum.splits prod.splits)
qed

text \<open>
  The outer loop, from \<^verbatim>\<open>paginated_variables['page'] = page_num\<close> on. The dict is updated
  in place, so the next round starts from the updated one.
\<close>

function page_loop ::
  "string \<Rightarrow> (string \<times> json) list \<Rightarrow> bool \<Rightarrow> int \<Rightarrow> json list \<Rightarrow> net \<Rightarrow> st
     \<Rightarrow> json list res \<times> net \<times> st" where
  "page_loop query paginated_variables verbose page_num out_list nt s =
     (let pv = AList.update ''page'' (JInt page_num) paginated_variables in
      case safe_post_request (JObj [(''query'', JStr query), (''variables'', JObj pv)])
             verbose nt s of
        (Hangs, nt', s') \<Rightarrow> (Hangs, nt', s')
      | (Raises e, nt', s') \<Rightarrow> (Raises e, nt', s')
      | (Returns response_data, nt', s') \<Rightarrow>
          (case extract_page response_data of
             Inl e \<Rightarrow> (Raises e, nt', s')
           | Inr (page, has_next) \<Rightarrow>
               if has_next then page_loop query pv verbose (page_num + 1) (out_list @ page) nt' s'
               else (Returns (out_list @ page), nt', s')))"
  by pat_completeness auto
termination
  apply (relation "measure (\<lambda>(query, pv, verbose, page_num, out_list, nt, s). length nt)")
   apply simp
  apply (auto dest!: safe_post_request_consumes[OF sym])
  done

definition depaginated_request ::
  "string \<Rightarrow> (string \<times> json) list \<Rightarrow> bool \<Rightarrow> net \<Rightarrow> st \<Rightarrow> json list res \<times> net \<times> st" where
  "depaginated_request query variables verbose nt s =
     page_loop query (AList.update ''perPage'' (JInt MAX_PAGE_SIZE) variables) verbose 1 [] nt s"

declare page_loop.simps [simp del]

section \<open>Relation Graph Walker: \<^verbatim>\<open>get_related_media\<close>\<close>

text \<open>
  Elements of a Python set are found by hash and equality. Arrays and objects cannot be
  hashed (a TypeError); \<^verbatim>\<open>True\<close> and \<^verbatim>\<open>False\<close> are equal to \<^verbatim>\<open>1\<close> and \<^verbatim>\<open>0\<close>. \<open>hkey x\<close> is
  the value that stands for \<open>x\<close> in a set: two hashable values are equal in Python exactly
  when their keys are the same.
\<close>

fun unhashable :: "json \<Rightarrow> bool" where
  "unhashable (JArr xs) = True"
| "unhashable (JObj kvs) = True"
| "unhashable _ = False"

fun hkey :: "json \<Rightarrow> json" where
  "hkey (JBool b) = JInt (if b then 1 else 0)"
| "hkey x = x"

text \<open>The GraphQL text of the relations query (its layout and comments left out).\<close>

definition relations_query :: string where
  "relations_query =
     ''query ($mediaId: Int) { Media(id: $mediaId) { relations { edges { relationType node { id title { english romaji } type format tags { name } } } } } }''"

definition relations_request :: "json \<Rightarrow> json" where
  "relations_request cur_show_id =
     JObj [(''query'', JStr relations_query),
           (''variables'', JObj [(''mediaId'', cur_show_id)])]"

text \<open>\<^verbatim>\<open>data['Media']['relations']['edges']\<close>, then the iteration of the \<^verbatim>\<open>for\<close> loop over it.\<close>

definition relation_edges :: "json \<Rightarrow> error + json list" where
  "relation_edges data =
     (case py_getitem data ''Media'' of
        Inl e \<Rightarrow> Inl e
      | Inr media \<Rightarrow>
     (case py_getitem media ''relations'' of
        Inl e \<Rightarrow> Inl e
      | Inr rels \<Rightarrow>
     (case py_getitem rels ''edges'' of
        Inl e \<Rightarrow> Inl e
      | Inr edges \<Rightarrow> py_iter edges)))"

text \<open>\<^verbatim>\<open>any(tag['name'] == 'Crossover' for tag in show['tags'])\<close>, which stops at the first hit.\<close>

fun any_crossover :: "json list \<Rightarrow> error + bool" where
  "any_crossover [] = Inr False"
| "any_crossover (tag # tags) =
     (case py_getitem tag ''name'' of
        Inl e \<Rightarrow> Inl e
      | Inr n \<Rightarrow> if n = JStr ''Crossover'' then Inr True else any_crossover tags)"

definition chained_types :: "json set" where
  "chained_types = {JStr ''SEQUEL'', JStr ''PREQUEL'', JStr ''SOURCE'', JStr ''ALTERNATIVE''}"

text \<open>
  The condition of the \<^verbatim>\<open>continue\<close>: the relation type is not one of the four, or (looked at
  only then) one of the tags is Crossover.
\<close>

definition skip_expansion :: "json \<Rightarrow> json \<Rightarrow> error + bool" where
  "skip_expansion relation media =
     (case py_getitem relation ''relationType'' of
        Inl e \<Rightarrow> Inl e
      | Inr t \<Rightarrow>
          if unhashable t then Inl TypeError
          else if hkey t \<notin> chained_types then Inr True
          else
            (case py_getitem media ''tags'' of
               Inl e \<Rightarrow> Inl e
             | Inr tags \<Rightarrow>
                 (case py_iter tags of
                    Inl e \<Rightarrow> Inl e
                  | Inr ts \<Rightarrow> any_crossover ts)))"

text \<open>
  \<^verbatim>\<open>queue\<close> is a Python set used as a worklist. It is kept as the list of its elements;
  \<^verbatim>\<open>queue.add\<close> leaves it alone when an equal element is there, and \<^verbatim>\<open>queue.pop()\<close> removes
  an element of Python's choosing: the one at position \<open>sel queue\<close> (modulo the length),
  for a selection function \<open>sel\<close> that every property leaves arbitrary.
\<close>

definition queue_add :: "json list \<Rightarrow> json \<Rightarrow> json list" where
  "queue_add queue x = (if hkey x \<in> hkey ` set queue then queue else queue @ [x])"

definition queue_pop :: "(json list \<Rightarrow> nat) \<Rightarrow> json list \<Rightarrow> json \<times> json list" where
  "queue_pop sel queue =
     (let i = sel queue mod length queue in (queue ! i, take i queue @ drop (Suc i) queue))"

text \<open>
  The local variables of the generator at a point between two steps of its loops:
  \<open>pending\<close> is the relation and node whose visit is not over (the generator has just
  added the node to \<^verbatim>\<open>related_show_ids\<close> and has still to decide whether to queue it),
  \<open>relations\<close> what the \<^verbatim>\<open>for\<close> loop has still to go through.
\<close>

record frame =
  pending :: "(json \<times> json) option"
  relations :: "json list"
  queue :: "json list"
  related_show_ids :: "json set"

datatype action = Go_on | Yield json | Stop

text \<open>
  One step of the generator.
  \<^item> With a pending node: the rest of the loop body after the \<^verbatim>\<open>yield\<close>, that is the test
    for the \<^verbatim>\<open>continue\<close> and \<^verbatim>\<open>queue.add\<close>.
  \<^item> With relations left: the loop body for the next relation, up to the \<^verbatim>\<open>yield\<close>. A node
    whose id is in \<^verbatim>\<open>related_show_ids\<close> is passed over; otherwise the id is added and the
    node is yielded unless its id is that of the start.
  \<^item> With no relation left: the \<^verbatim>\<open>while\<close> test, and for a non-empty queue the pop and the
    request for the relations of the popped id.
\<close>

definition step ::
  "(json list \<Rightarrow> nat) \<Rightarrow> json \<Rightarrow> frame \<Rightarrow> net \<Rightarrow> st \<Rightarrow> (action \<times> frame) res \<times> net \<times> st" where
  "step sel show_id f nt s =
     (case pending f of
        Some (relation, media) \<Rightarrow>
          (case skip_expansion relation media of
             Inl e \<Rightarrow> (Raises e, nt, s)
           | Inr True \<Rightarrow> (Returns (Go_on, f\<lparr>pending := None\<rparr>), nt, s)
           | Inr False \<Rightarrow>
               (case py_getitem media ''id'' of
                  Inl e \<Rightarrow> (Raises e, nt, s)
                | Inr sid \<Rightarrow>
                    (Returns (Go_on, f\<lparr>pending := None, queue := queue_add (queue f) sid\<rparr>),
                     nt, s)))
      | None \<Rightarrow>
          (case relations f of
             relation # rest \<Rightarrow>
               (case py_getitem relation ''node'' of
                  Inl e \<Rightarrow> (Raises e, nt, s)
                | Inr media \<Rightarrow>
                    (case py_getitem media ''id'' of
                       Inl e \<Rightarrow> (Raises e, nt, s)
                     | Inr sid \<Rightarrow>
                         if unhashable sid then (Raises TypeError, nt, s)
                         else if hkey sid \<in> related_show_ids f then
                           (Returns (Go_on, f\<lparr>relations := rest\<rparr>), nt, s)
                         else
                           (Returns
                              (if hkey sid \<noteq> hkey show_id then Yield media else Go_on,
                               f\<lparr>pending := Some (relation, media), relations := rest,
                                 related_show_ids := insert (hkey sid) (related_show_ids f)\<rparr>),
                            nt, s)))
           | [] \<Rightarrow>
               if queue f = [] then (Returns (Stop, f), nt, s)
               else
                 (case queue_pop sel (queue f) of
                    (cur_show_id, queue') \<Rightarrow>
                      (case safe_post_request (relations_request cur_show_id) True nt s of
                         (Hangs, nt', s') \<Rightarrow> (Hangs, nt', s')
                       | (Raises e, nt', s') \<Rightarrow> (Raises e, nt', s')
                       | (Returns data, nt', s') \<Rightarrow>
                           (case relation_edges data of
                              Inl e \<Rightarrow> (Raises e, nt', s')
                            | Inr rels \<Rightarrow>
                                (Returns (Go_on, f\<lparr>relations := rels, queue := queue'\<rparr>),
                                 nt', s'))))))"

text \<open>
  The generator object: not yet started (the body runs at the first request for an
  item), suspended at the \<^verbatim>\<open>yield\<close>, or finished (by the end of the loop or by an
  exception).
\<close>

datatype walker = Not_started json | Suspended json frame | Finished

definition get_related_media :: "json \<Rightarrow> walker" where
  "get_related_media show_id = Not_started show_id"

definition frame_size :: "frame \<Rightarrow> nat" where
  "frame_size f = 2 * length (relations f) + (if pending f = None then 0 else 1)"

lemma step_descends:
  assumes "step sel show_id f nt s = (Returns (a, f'), nt', s')" and "a \<noteq> Stop"
  shows "length nt' < length nt \<or> (nt' = nt \<and> frame_size f' < frame_size f)"
proof (cases "pending f")
  case (Some p)
  with assms show ?thesis
    by (cases p) (auto simp: step_def frame_size_def split: sum.splits bool.splits)
next
  case None
  show ?thesis
  proof (cases "relations f")
    case (Cons relation rest)
    with None assms show ?thesis
      by (auto simp: step_def frame_size_def split: sum.splits if_splits)
  next
    case Nil
    with None assms obtain q d where
      "safe_post_request q True nt s = (Returns d, nt', s')"
      by (auto simp: step_def split: if_splits prod.splits res.splits sum.splits)
    from safe_post_request_consumes[OF this] show ?thesis by simp
  qed
qed

lemma step_go_on_descends:
  "(Returns (Go_on, f'), nt', s') = step sel show_id f nt s \<Longrightarrow>
   length nt' < length nt \<or> (nt' = nt \<and> frame_size f' < frame_size f)"
  using step_descends[of sel show_id f nt s Go_on f' nt' s'] by simp

text \<open>
  The generator runs from one suspension to the next: steps, until one of them yields,
  stops, raises, or waits for ever.
\<close>

function run_loop ::
  "(json list \<Rightarrow> nat) \<Rightarrow> json \<Rightarrow> frame \<Rightarrow> net \<Rightarrow> st \<Rightarrow> json option res \<times> walker \<times> net \<times> st" where
  "run_loop sel show_id f nt s =
     (case step sel show_id f nt s of
        (Returns (Go_on, f'), nt', s') \<Rightarrow> run_loop sel show_id f' nt' s'
      | (Returns (Yield media, f'), nt', s') \<Rightarrow>
          (Returns (Some media), Suspended show_id f', nt', s')
      | (Returns (Stop, f'), nt', s') \<Rightarrow> (Returns None, Finished, nt', s')
      | (Raises e, nt', s') \<Rightarrow> (Raises e, Finished, nt', s')
      | (Hangs, nt', s') \<Rightarrow> (Hangs, Finished, nt', s'))"
  by pat_completeness auto
termination
  apply (relation "measures [\<lambda>(sel, show_id, f, nt, s). length nt,
                            \<lambda>(sel, show_id, f, nt, s). frame_size f]")
   apply simp
  apply (auto dest!: step_go_on_descends)
  done

declare run_loop.simps [simp del]

text \<open>
  \<^verbatim>\<open>__anext__\<close>: the first call starts the body (\<^verbatim>\<open>queue = {show_id}\<close> and
  \<^verbatim>\<open>related_show_ids = {show_id}\<close>, which need \<^verbatim>\<open>show_id\<close> hashable), a later one resumes
  after the \<^verbatim>\<open>yield\<close>; \<open>None\<close> is the end of the iteration.
\<close>

definition walker_next ::
  "(json list \<Rightarrow> nat) \<Rightarrow> walker \<Rightarrow> net \<Rightarrow> st \<Rightarrow> json option res \<times> walker \<times> net \<times> st" where
  "walker_next sel w nt s =
     (case w of
        Not_started show_id \<Rightarrow>
          if unhashable show_id then (Raises TypeError, Finished, nt, s)
          else run_loop sel show_id
                 \<lparr>pending = None, relations = [], queue = [show_id],
                  related_show_ids = {hkey show_id}\<rparr> nt s
      | Suspended show_id f \<Rightarrow> run_loop sel show_id f nt s
      | Finished \<Rightarrow> (Returns None, Finished, nt, s))"


section \<open>Membership Matcher and the main program\<close>

definition walker_size :: "walker \<Rightarrow> nat" where
  "walker_size w = (case w of Suspended show_id f \<Rightarrow> frame_size f | _ \<Rightarrow> 0)"

lemma run_loop_descends:
  "run_loop sel show_id f nt s = (Returns (Some x), w', nt', s') \<Longrightarrow>
   length nt' < length nt \<or> (nt' = nt \<and> walker_size w' < frame_size f)"
proof (induction sel show_id f nt s rule: run_loop.induct)
  case (1 sel show_id f nt s)
  obtain r nt1 s1 where st: "step sel show_id f nt s = (r, nt1, s1)"
    by (cases "step sel show_id f nt s") auto
  show ?case
  proof (cases r)
    case (Returns af)
    obtain a f1 where af: "af = (a, f1)" by (cases af) auto
    show ?thesis
    proof (cases a)
      case Go_on
      have d: "length nt1 < length nt \<or> (nt1 = nt \<and> frame_size f1 < frame_size f)"
        using step_descends[of sel show_id f nt s Go_on f1 nt1 s1] st Returns af Go_on by simp
      have "run_loop sel show_id f1 nt1 s1 = (Returns (Some x), w', nt', s')"
        using "1.prems" st Returns af Go_on by (subst (asm) run_loop.simps) simp
      from "1.IH"[OF st[symmetric] Returns[unfolded af] refl Go_on refl this] d
      show ?thesis by auto
    next
      case (Yield m)
      have d: "length nt1 < length nt \<or> (nt1 = nt \<and> frame_size f1 < frame_size f)"
        using step_descends[of sel show_id f nt s "Yield m" f1 nt1 s1] st Returns af Yield
        by simp
      have "w' = Suspended show_id f1 \<and> nt' = nt1"
        using "1.prems" st Returns af Yield by (subst (asm) run_loop.simps) simp
      with d show ?thesis by (auto simp: walker_size_def)
    next
      case Stop
      with "1.prems" st Returns af show ?thesis
        by (subst (asm) run_loop.simps) simp
    qed
  next
    case (Raises e)
    with "1.prems" st show ?thesis by (subst (asm) run_loop.simps) simp
  next
    case Hangs
    with "1.prems" st show ?thesis by (subst (asm) run_loop.simps) simp
  qed
qed

lemma walker_next_descends:
  "walker_next sel w nt s = (Returns (Some x), w', nt', s') \<Longrightarrow>
   length nt' < length nt \<or> (nt' = nt \<and> walker_size w' < walker_size w)"
proof (cases w)
  case (Not_started show_id)
  assume "walker_next sel w nt s = (Returns (Some x), w', nt', s')"
  with Not_started have
    "run_loop sel show_id \<lparr>pending = None, relations = [], queue = [show_id],
        related_show_ids = {hkey show_id}\<rparr> nt s = (Returns (Some x), w', nt', s')"
    by (simp add: walker_next_def split: if_splits)
  from run_loop_descends[OF this] show ?thesis by (simp add: frame_size_def)
next
  case (Suspended show_id f)
  assume "walker_next sel w nt s = (Returns (Some x), w', nt', s')"
  with Suspended have "run_loop sel show_id f nt s = (Returns (Some x), w', nt', s')"
    by (simp add: walker_next_def)
  from run_loop_descends[OF this] Suspended show ?thesis by (simp add: walker_size_def)
next
  case Finished
  assume "walker_next sel w nt s = (Returns (Some x), w', nt', s')"
  with Finished show ?thesis by (simp add: walker_next_def)
qed

text \<open>
  The asynchronous generator expression of the main program,
  \<^verbatim>\<open>(related_media['id'] in user_media_ids async for related_media in get_related_media(...))\<close>:
  its next item is the membership test on the walker's next node.
\<close>

definition related_in_next ::
  "(json list \<Rightarrow> nat) \<Rightarrow> json set \<Rightarrow> walker \<Rightarrow> net \<Rightarrow> st
     \<Rightarrow> bool option res \<times> walker \<times> net \<times> st" where
  "related_in_next sel user_media_ids w nt s =
     (case walker_next sel w nt s of
        (Returns (Some related_media), w', nt', s') \<Rightarrow>
          (case py_getitem related_media ''id'' of
             Inl e \<Rightarrow> (Raises e, w', nt', s')
           | Inr i \<Rightarrow>
               if unhashable i then (Raises TypeError, w', nt', s')
               else (Returns (Some (hkey i \<in> user_media_ids)), w', nt', s'))
      | (Returns None, w', nt', s') \<Rightarrow> (Returns None, w', nt', s')
      | (Raises e, w', nt', s') \<Rightarrow> (Raises e, w', nt', s')
      | (Hangs, w', nt', s') \<Rightarrow> (Hangs, w', nt', s'))"

lemma related_in_next_descends:
  "(Returns (Some thing), w', nt', s') = related_in_next sel user_media_ids w nt s \<Longrightarrow>
   length nt' < length nt \<or> (nt' = nt \<and> walker_size w' < walker_size w)"
proof -
  assume a: "(Returns (Some thing), w', nt', s') = related_in_next sel user_media_ids w nt s"
  obtain r w1 nt1 s1 where n: "walker_next sel w nt s = (r, w1, nt1, s1)"
    by (cases "walker_next sel w nt s") auto
  with a obtain x where "r = Returns (Some x)" and "w1 = w'" and "nt1 = nt'"
    by (auto simp: related_in_next_def split: res.splits option.splits sum.splits if_splits)
  with n walker_next_descends[of sel w nt s x w' nt' s1] show ?thesis by simp
qed

text \<open>
  \<^verbatim>\<open>async_any\<close> over that generator expression: true at the first true item, without
  asking for another; false when the iteration ends.
\<close>

function async_any ::
  "(json list \<Rightarrow> nat) \<Rightarrow> json set \<Rightarrow> walker \<Rightarrow> net \<Rightarrow> st \<Rightarrow> bool res \<times> walker \<times> net \<times> st" where
  "async_any sel user_media_ids w nt s =
     (case related_in_next sel user_media_ids w nt s of
        (Returns (Some thing), w', nt', s') \<Rightarrow>
          if thing then (Returns True, w', nt', s')
          else async_any sel user_media_ids w' nt' s'
      | (Returns None, w', nt', s') \<Rightarrow> (Returns False, w', nt', s')
      | (Raises e, w', nt', s') \<Rightarrow> (Raises e, w', nt', s')
      | (Hangs, w', nt', s') \<Rightarrow> (Hangs, w', nt', s'))"
  by pat_completeness auto
termination
  apply (relation "measures [\<lambda>(sel, u, w, nt, s). length nt,
                            \<lambda>(sel, u, w, nt, s). walker_size w]")
   apply simp
  apply (auto dest!: related_in_next_descends)
  done

declare async_any.simps [simp del]

text \<open>\<^verbatim>\<open>show['title']['english'] or show['title']['romaji']\<close>, the value printed for a show.\<close>

definition display_title :: "json \<Rightarrow> error + json" where
  "display_title media =
     (case py_getitem media ''title'' of
        Inl e \<Rightarrow> Inl e
      | Inr title \<Rightarrow>
          (case py_getitem title ''english'' of
             Inl e \<Rightarrow> Inl e
           | Inr english \<Rightarrow>
               if truthy english then Inr english else py_getitem title ''romaji''))"

text \<open>
  The loop over the shows of a season: a show is printed when some node of its walk is
  in the user's set.
\<close>

fun check_shows ::
  "(json list \<Rightarrow> nat) \<Rightarrow> json set \<Rightarrow> json list \<Rightarrow> net \<Rightarrow> st \<Rightarrow> unit res \<times> net \<times> st" where
  "check_shows sel user_media_ids [] nt s = (Returns (), nt, s)"
| "check_shows sel user_media_ids (media # shows) nt s =
     (case py_getitem media ''id'' of
        Inl e \<Rightarrow> (Raises e, nt, s)
      | Inr show_id \<Rightarrow>
          (case async_any sel user_media_ids (get_related_media show_id) nt s of
             (Returns hit, w, nt', s') \<Rightarrow>
               if hit then
                 (case display_title media of
                    Inl e \<Rightarrow> (Raises e, nt', s')
                  | Inr t \<Rightarrow> check_shows sel user_media_ids shows nt' (emit [Print_title t] s'))
               else check_shows sel user_media_ids shows nt' s'
           | (Raises e, w, nt', s') \<Rightarrow> (Raises e, nt', s')
           | (Hangs, w, nt', s') \<Rightarrow> (Hangs, nt', s')))"

text \<open>The command line after \<^verbatim>\<open>parse_args\<close>.\<close>

record args =
  username :: string
  planning :: bool
  completed :: bool

definition user_id_query :: string where
  "user_id_query = ''query ($username: String) { User (name: $username) { id } }''"

definition get_user_id_by_name :: "string \<Rightarrow> net \<Rightarrow> st \<Rightarrow> json res \<times> net \<times> st" where
  "get_user_id_by_name name nt s =
     (case safe_post_request
             (JObj [(''query'', JStr user_id_query),
                    (''variables'', JObj [(''username'', JStr name)])]) True nt s of
        (Returns data, nt', s') \<Rightarrow>
          (case py_getitem data ''User'' of
             Inl e \<Rightarrow> (Raises e, nt', s')
           | Inr user \<Rightarrow>
               (case py_getitem user ''id'' of
                  Inl e \<Rightarrow> (Raises e, nt', s')
                | Inr i \<Rightarrow> (Returns i, nt', s')))
      | (Raises e, nt', s') \<Rightarrow> (Raises e, nt', s')
      | (Hangs, nt', s') \<Rightarrow> (Hangs, nt', s'))"

definition user_media_query :: string where
  "user_media_query =
     ''query ($userId: Int, $status: MediaListStatus, $page: Int, $perPage: Int) { Page (page: $page, perPage: $perPage) { pageInfo { hasNextPage } mediaList(userId: $userId, status: $status, sort: [SCORE_DESC, MEDIA_ID]) { media { id title { english romaji } } } } }''"

text \<open>\<^verbatim>\<open>[list_entry['media'] for list_entry in ...]\<close>\<close>

fun entry_medias :: "json list \<Rightarrow> error + json list" where
  "entry_medias [] = Inr []"
| "entry_medias (list_entry # es) =
     (case py_getitem list_entry ''media'' of
        Inl e \<Rightarrow> Inl e
      | Inr m \<Rightarrow> (case entry_medias es of Inl e \<Rightarrow> Inl e | Inr ms \<Rightarrow> Inr (m # ms)))"

definition get_user_media :: "json \<Rightarrow> string \<Rightarrow> net \<Rightarrow> st \<Rightarrow> json list res \<times> net \<times> st" where
  "get_user_media user_id status nt s =
     (case depaginated_request user_media_query
             [(''userId'', user_id), (''status'', JStr status)] True nt s of
        (Returns entries, nt', s') \<Rightarrow>
          (case entry_medias entries of
             Inl e \<Rightarrow> (Raises e, nt', s')
           | Inr ms \<Rightarrow> (Returns ms, nt', s'))
      | (Raises e, nt', s') \<Rightarrow> (Raises e, nt', s')
      | (Hangs, nt', s') \<Rightarrow> (Hangs, nt', s'))"

definition season_shows_query :: string where
  "season_shows_query =
     ''query ($season: MediaSeason, $seasonYear: Int, $page: Int, $perPage: Int) { Page (page: $page, perPage: $perPage) { pageInfo { hasNextPage } media(season: $season, seasonYear: $seasonYear, type: ANIME, format_in: [TV, MOVIE], sort: POPULARITY_DESC) { id title { english romaji } } } }''"

definition get_season_shows :: "string \<Rightarrow> int \<Rightarrow> net \<Rightarrow> st \<Rightarrow> json list res \<times> net \<times> st" where
  "get_season_shows season season_year nt s =
     depaginated_request season_shows_query
       [(''season'', JStr season), (''seasonYear'', JInt season_year)] True nt s"

text \<open>\<^verbatim>\<open>set(media['id'] for media in ...)\<close>, as the set of the keys of the ids.\<close>

fun media_id_set :: "json list \<Rightarrow> error + json set" where
  "media_id_set [] = Inr {}"
| "media_id_set (media # ms) =
     (case py_getitem media ''id'' of
        Inl e \<Rightarrow> Inl e
      | Inr i \<Rightarrow>
          if unhashable i then Inl TypeError
          else (case media_id_set ms of Inl e \<Rightarrow> Inl e | Inr ids \<Rightarrow> Inr (insert (hkey i) ids)))"

text \<open>The dict comprehension \<^verbatim>\<open>user_media_ids_by_status\<close>, one status after the other.\<close>

fun ids_by_status ::
  "json \<Rightarrow> string list \<Rightarrow> net \<Rightarrow> st \<Rightarrow> (string \<times> json set) list res \<times> net \<times> st" where
  "ids_by_status user_id [] nt s = (Returns [], nt, s)"
| "ids_by_status user_id (status # statuses) nt s =
     (case get_user_media user_id status nt s of
        (Returns ms, nt', s') \<Rightarrow>
          (case media_id_set ms of
             Inl e \<Rightarrow> (Raises e, nt', s')
           | Inr ids \<Rightarrow>
               (case ids_by_status user_id statuses nt' s' of
                  (Returns d, nt'', s'') \<Rightarrow> (Returns ((status, ids) # d), nt'', s'')
                | (Raises e, nt'', s'') \<Rightarrow> (Raises e, nt'', s'')
                | (Hangs, nt'', s'') \<Rightarrow> (Hangs, nt'', s'')))
      | (Raises e, nt', s') \<Rightarrow> (Raises e, nt', s')
      | (Hangs, nt', s') \<Rightarrow> (Hangs, nt', s'))"

text \<open>
  The start of \<^verbatim>\<open>main\<close>, from the parsed arguments to \<^verbatim>\<open>user_media_ids\<close>: the user's id,
  the ids of the three lists, their union.
\<close>

definition collect_user_media_ids :: "args \<Rightarrow> net \<Rightarrow> st \<Rightarrow> json set res \<times> net \<times> st" where
  "collect_user_media_ids a nt s =
     (case get_user_id_by_name (username a) nt s of
        (Returns user_id, nt', s') \<Rightarrow>
          (case ids_by_status user_id [''COMPLETED'', ''PLANNING'', ''CURRENT''] nt' s' of
             (Returns d, nt'', s'') \<Rightarrow> (Returns (\<Union> (set (map snd d))), nt'', s'')
           | (Raises e, nt'', s'') \<Rightarrow> (Raises e, nt'', s'')
           | (Hangs, nt'', s'') \<Rightarrow> (Hangs, nt'', s''))
      | (Raises e, nt', s') \<Rightarrow> (Raises e, nt', s')
      | (Hangs, nt', s') \<Rightarrow> (Hangs, nt', s'))"

text \<open>
  The four seasons searched, from the month (1 to 12) and the year of the current date.
\<close>

definition season_of :: "nat \<Rightarrow> int \<Rightarrow> nat \<Rightarrow> string \<times> int" where
  "season_of month year i =
     (let season_idx = month div 3 + i in
      ([''WINTER'', ''SPRING'', ''SUMMER'', ''FALL''] ! (season_idx mod 4),
       year + int (season_idx div 4)))"

fun search_seasons ::
  "(json list \<Rightarrow> nat) \<Rightarrow> json set \<Rightarrow> nat \<Rightarrow> int \<Rightarrow> nat list \<Rightarrow> net \<Rightarrow> st \<Rightarrow> unit res \<times> net \<times> st" where
  "search_seasons sel user_media_ids month year [] nt s = (Returns (), nt, s)"
| "search_seasons sel user_media_ids month year (i # is) nt s =
     (case season_of month year i of
        (season, y) \<Rightarrow>
          (let s1 = emit ((if i \<noteq> 0 then [Print_blank] else [])
                          @ [Print_season season y, Print_rule]) s in
           case get_season_shows season y nt s1 of
             (Returns shows, nt', s') \<Rightarrow>
               (case check_shows sel user_media_ids shows nt' s' of
                  (Returns u, nt'', s'') \<Rightarrow>
                    search_seasons sel user_media_ids month year is nt'' s''
                | (Raises e, nt'', s'') \<Rightarrow> (Raises e, nt'', s'')
                | (Hangs, nt'', s'') \<Rightarrow> (Hangs, nt'', s''))
           | (Raises e, nt', s') \<Rightarrow> (Raises e, nt', s')
           | (Hangs, nt', s') \<Rightarrow> (Hangs, nt', s')))"

text \<open>
  \<^verbatim>\<open>main\<close> after \<^verbatim>\<open>parse_args\<close>, with the month and year that \<^verbatim>\<open>datetime.utcnow()\<close> gives.
\<close>

definition main :: "args \<Rightarrow> nat \<Rightarrow> int \<Rightarrow> (json list \<Rightarrow> nat) \<Rightarrow> net \<Rightarrow> st \<Rightarrow> unit res \<times> net \<times> st" where
  "main a month year sel nt s =
     (case collect_user_media_ids a nt s of
        (Returns user_media_ids, nt', s') \<Rightarrow>
          (case search_seasons sel user_media_ids month year [0, 1, 2, 3] nt' s' of
             (Returns u, nt'', s'') \<Rightarrow>
               (Returns (),
                nt'',
                (emit [Print_total (total_queries s'')] s'')\<lparr>total_queries := 0\<rparr>)
           | (Raises e, nt'', s'') \<Rightarrow> (Raises e, nt'', s'')
           | (Hangs, nt'', s'') \<Rightarrow> (Hangs, nt'', s''))
      | (Raises e, nt', s') \<Rightarrow> (Raises e, nt', s')
      | (Hangs, nt', s') \<Rightarrow> (Hangs, nt', s'))"


section \<open>Notions the properties are stated with\<close>

text \<open>
  The upstream interface gives \<^verbatim>\<open>Retry-After\<close> as an integer number of seconds: a
  response is well formed when its header, if present, reads as an integer.
\<close>

definition retry_after_wellformed :: "response \<Rightarrow> bool" where
  "retry_after_wellformed r =
     (case map_of (headers r) ''Retry-After'' of
        None \<Rightarrow> True
      | Some v \<Rightarrow> (case py_int v of Inl e \<Rightarrow> False | Inr n \<Rightarrow> True))"

text \<open>
  The answers that send the loop round again: a pyodide exception, or a response with
  status 429 (with or without the header).
\<close>

definition rate_limited :: "post_result \<Rightarrow> bool" where
  "rate_limited a =
     (case a of
        Exception ty \<Rightarrow> ty = ''<class 'pyodide.JsException'>''
      | Response r \<Rightarrow> status_code r = 429 \<and> retry_after_wellformed r)"

text \<open>The requests posted, in order, read off the trace.\<close>

definition posted :: "event list \<Rightarrow> json list" where
  "posted tr = concat (map (\<lambda>e. case e of Post q \<Rightarrow> [q] | _ \<Rightarrow> []) tr)"

text \<open>The \<^verbatim>\<open>errors\<close> fields printed, in order, read off the trace.\<close>

definition printed_errors :: "event list \<Rightarrow> json list" where
  "printed_errors tr = concat (map (\<lambda>e. case e of Print_errors j \<Rightarrow> [j] | _ \<Rightarrow> []) tr)"

text \<open>
  The \<^verbatim>\<open>data\<close> field of a response, if it has one: the body is JSON, an object, and has
  the key.
\<close>

definition response_data :: "response \<Rightarrow> json option" where
  "response_data r =
     (case body r of
        None \<Rightarrow> None
      | Some b \<Rightarrow> (case py_getitem b ''data'' of Inl e \<Rightarrow> None | Inr d \<Rightarrow> Some d))"

text \<open>\<open>envelope ks d\<close>: the value \<open>d\<close> wrapped in single-key objects, outermost key first.\<close>

definition envelope :: "string list \<Rightarrow> json \<Rightarrow> json" where
  "envelope ks d = foldr (\<lambda>k x. JObj [(k, x)]) ks d"

text \<open>The JSON posted for one page.\<close>

definition page_request :: "string \<Rightarrow> (string \<times> json) list \<Rightarrow> int \<Rightarrow> json" where
  "page_request query pv page_num =
     JObj [(''query'', JStr query),
           (''variables'', JObj (AList.update ''page'' (JInt page_num) pv))]"

text \<open>
  A paginated source of the given items: page \<open>p\<close> with page size \<open>n\<close> holds the items
  from \<open>(p - 1) * n\<close> on, at most \<open>n\<close> of them, and has a next page when items remain
  after it.
\<close>

definition page_body :: "json list \<Rightarrow> int \<Rightarrow> int \<Rightarrow> json" where
  "page_body items p n =
     JObj [(''Page'',
       JObj [(''pageInfo'', JObj [(''hasNextPage'', JBool (p * n < int (length items)))]),
             (''mediaList'', JArr (take (nat n) (drop (nat ((p - 1) * n)) items)))])]"

definition page_source :: "json list \<Rightarrow> json \<Rightarrow> post_result" where
  "page_source items req =
     (case py_getitem req ''variables'' of
        Inr vars \<Rightarrow>
          (case (py_getitem vars ''page'', py_getitem vars ''perPage'') of
             (Inr (JInt p), Inr (JInt n)) \<Rightarrow>
               if 1 \<le> p \<and> 1 \<le> n then
                 Response \<lparr>status_code = 200, headers = [],
                           body = Some (JObj [(''data'', page_body items p n)])\<rparr>
               else Response \<lparr>status_code = 400, headers = [], body = None\<rparr>
           | _ \<Rightarrow> Response \<lparr>status_code = 400, headers = [], body = None\<rparr>)
      | _ \<Rightarrow> Response \<lparr>status_code = 400, headers = [], body = None\<rparr>)"

text \<open>The number of requests the driver makes for \<open>n\<close> items: one per page, and one when there is no item.\<close>

definition pages_fetched :: "nat \<Rightarrow> nat" where
  "pages_fetched n = max 1 ((n + 49) div 50)"

text \<open>A media object as the queries return it: an id and the two titles.\<close>

definition media_ref :: "json \<Rightarrow> json \<Rightarrow> json \<Rightarrow> json" where
  "media_ref i english romaji =
     JObj [(''id'', i), (''title'', JObj [(''english'', english), (''romaji'', romaji)])]"

text \<open>The ids of one list of the user: \<^verbatim>\<open>set(media['id'] for media in await get_user_media(...))\<close>.\<close>

definition status_ids :: "json \<Rightarrow> string \<Rightarrow> net \<Rightarrow> st \<Rightarrow> json set res \<times> net \<times> st" where
  "status_ids user_id status nt s =
     (case get_user_media user_id status nt s of
        (Returns ms, nt', s') \<Rightarrow>
          (case media_id_set ms of
             Inl e \<Rightarrow> (Raises e, nt', s')
           | Inr ids \<Rightarrow> (Returns ids, nt', s'))
      | (Raises e, nt', s') \<Rightarrow> (Raises e, nt', s')
      | (Hangs, nt', s') \<Rightarrow> (Hangs, nt', s'))"


text \<open>
  A relation graph as the API serves it: for each media id, its edges, each with a
  relation type, the id of the node and the names of the node's tags.
\<close>

type_synonym graph = "int \<Rightarrow> (string \<times> int \<times> string list) list"

definition node_json :: "int \<Rightarrow> string list \<Rightarrow> json" where
  "node_json i tags =
     JObj [(''id'', JInt i),
           (''title'', JObj [(''english'', JNull), (''romaji'', JStr ''title'')]),
           (''type'', JStr ''ANIME''),
           (''format'', JStr ''TV''),
           (''tags'', JArr (map (\<lambda>n. JObj [(''name'', JStr n)]) tags))]"

definition edge_json :: "string \<Rightarrow> int \<Rightarrow> string list \<Rightarrow> json" where
  "edge_json t i tags = JObj [(''relationType'', JStr t), (''node'', node_json i tags)]"

definition relations_data :: "(string \<times> int \<times> string list) list \<Rightarrow> json" where
  "relations_data es =
     JObj [(''Media'', JObj [(''relations'',
       JObj [(''edges'', JArr (map (\<lambda>e. edge_json (fst e) (fst (snd e)) (snd (snd e))) es))])])]"

text \<open>The API over a graph: the answer to a relations request for a media id.\<close>

definition relations_answer :: "graph \<Rightarrow> json \<Rightarrow> post_result" where
  "relations_answer g q =
     (case py_getitem q ''variables'' of
        Inr vars \<Rightarrow>
          (case py_getitem vars ''mediaId'' of
             Inr (JInt i) \<Rightarrow>
               Response \<lparr>status_code = 200, headers = [],
                         body = Some (JObj [(''data'', relations_data (g i))])\<rparr>
           | _ \<Rightarrow> Response \<lparr>status_code = 400, headers = [], body = None\<rparr>)
      | _ \<Rightarrow> Response \<lparr>status_code = 400, headers = [], body = None\<rparr>)"

text \<open>The key of the id of a yielded node.\<close>

definition yield_key :: "json \<Rightarrow> json" where
  "yield_key media = (case py_getitem media ''id'' of Inr i \<Rightarrow> hkey i | Inl e \<Rightarrow> JNull)"

text \<open>
  The ids that are in the queue or may still enter it: the queue, and the id of the
  pending node.
\<close>

definition frontier :: "frame \<Rightarrow> json set" where
  "frontier f =
     hkey ` set (queue f)
     \<union> (case pending f of None \<Rightarrow> {} | Some (relation, media) \<Rightarrow> {yield_key media})"

text \<open>Whether the id of a yielded node is in the user's set.\<close>

definition in_user_set :: "json set \<Rightarrow> json \<Rightarrow> bool" where
  "in_user_set user_media_ids media = (yield_key media \<in> user_media_ids)"

text \<open>
  The whole walk: every node the generator yields until it ends, with the way it ends.
\<close>

lemma walker_next_descends_sym:
  "(Returns (Some x), w', nt', s') = walker_next sel w nt s \<Longrightarrow>
   length nt' < length nt \<or> (nt' = nt \<and> walker_size w' < walker_size w)"
  using walker_next_descends[of sel w nt s x w' nt' s'] by simp

function drain ::
  "(json list \<Rightarrow> nat) \<Rightarrow> walker \<Rightarrow> net \<Rightarrow> st \<Rightarrow> json list \<times> unit res \<times> walker \<times> net \<times> st" where
  "drain sel w nt s =
     (case walker_next sel w nt s of
        (Returns (Some x), w', nt', s') \<Rightarrow>
          (case drain sel w' nt' s' of (xs, r) \<Rightarrow> (x # xs, r))
      | (Returns None, w', nt', s') \<Rightarrow> ([], Returns (), w', nt', s')
      | (Raises e, w', nt', s') \<Rightarrow> ([], Raises e, w', nt', s')
      | (Hangs, w', nt', s') \<Rightarrow> ([], Hangs, w', nt', s'))"
  by pat_completeness auto
termination
  apply (relation "measures [\<lambda>(sel, w, nt, s). length nt, \<lambda>(sel, w, nt, s). walker_size w]")
   apply simp
  apply (auto dest!: walker_next_descends_sym)
  done

declare drain.simps [simp del]

text \<open>The first \<open>n\<close> items asked of the generator (fewer if it ends before), and where that leaves it.\<close>

fun pulls ::
  "nat \<Rightarrow> (json list \<Rightarrow> nat) \<Rightarrow> walker \<Rightarrow> net \<Rightarrow> st \<Rightarrow> json list \<times> walker \<times> net \<times> st" where
  "pulls 0 sel w nt s = ([], w, nt, s)"
| "pulls (Suc n) sel w nt s =
     (case walker_next sel w nt s of
        (Returns (Some x), w', nt', s') \<Rightarrow>
          (case pulls n sel w' nt' s' of (xs, r) \<Rightarrow> (x # xs, r))
      | (r, w', nt', s') \<Rightarrow> ([], w', nt', s'))"


text \<open>
  Relation graphs with nodes of any kind. An edge has its relation type and, for the
  node it leads to, the id, the names of the tags, the type (ANIME or MANGA), the format
  and the two titles.
\<close>

record edge =
  e_type :: string
  e_id :: int
  e_tags :: "string list"
  e_kind :: string
  e_format :: string
  e_english :: json
  e_romaji :: json

type_synonym relation_graph = "int \<Rightarrow> edge list"

definition node_of :: "edge \<Rightarrow> json" where
  "node_of e =
     JObj [(''id'', JInt (e_id e)),
           (''title'', JObj [(''english'', e_english e), (''romaji'', e_romaji e)]),
           (''type'', JStr (e_kind e)),
           (''format'', JStr (e_format e)),
           (''tags'', JArr (map (\<lambda>n. JObj [(''name'', JStr n)]) (e_tags e)))]"

definition edge_of :: "edge \<Rightarrow> json" where
  "edge_of e = JObj [(''relationType'', JStr (e_type e)), (''node'', node_of e)]"

definition relations_of :: "edge list \<Rightarrow> json" where
  "relations_of es =
     JObj [(''Media'', JObj [(''relations'', JObj [(''edges'', JArr (map edge_of es))])])]"

text \<open>The API over such a graph: the answer to a relations request for a media id.\<close>

definition serve :: "relation_graph \<Rightarrow> json \<Rightarrow> post_result" where
  "serve g q =
     (case py_getitem q ''variables'' of
        Inr vars \<Rightarrow>
          (case py_getitem vars ''mediaId'' of
             Inr (JInt i) \<Rightarrow>
               Response \<lparr>status_code = 200, headers = [],
                         body = Some (JObj [(''data'', relations_of (g i))])\<rparr>
           | _ \<Rightarrow> Response \<lparr>status_code = 400, headers = [], body = None\<rparr>)
      | _ \<Rightarrow> Response \<lparr>status_code = 400, headers = [], body = None\<rparr>)"

text \<open>
  An edge through which the walk goes on: one of the four relation types, and no tag
  named Crossover on the node.
\<close>

definition expands :: "edge \<Rightarrow> bool" where
  "expands e \<longleftrightarrow>
     e_type e \<in> {''SEQUEL'', ''PREQUEL'', ''SOURCE'', ''ALTERNATIVE''}
     \<and> ''Crossover'' \<notin> set (e_tags e)"

text \<open>The media ids whose relations were requested, in order, read off the trace.\<close>

definition requested_ids :: "event list \<Rightarrow> json list" where
  "requested_ids tr =
     concat (map (\<lambda>ev. case ev of
                          Post q \<Rightarrow>
                            (case py_getitem q ''variables'' of
                               Inr vars \<Rightarrow>
                                 (case py_getitem vars ''mediaId'' of
                                    Inr i \<Rightarrow> [i]
                                  | Inl e \<Rightarrow> [])
                             | Inl e \<Rightarrow> [])
                        | _ \<Rightarrow> []) tr)"


subsection \<open>Example answers\<close>

definition ex_request :: json where
  "ex_request = JObj [(''query'', JStr ''q''), (''variables'', JObj [(''mediaId'', JInt 7)])]"

definition ex_rate_limited :: "json \<Rightarrow> post_result" where
  "ex_rate_limited q =
     Response \<lparr>status_code = 429, headers = [(''Retry-After'', ''2'')], body = None\<rparr>"

definition ex_pyodide :: "json \<Rightarrow> post_result" where
  "ex_pyodide q = Exception ''<class 'pyodide.JsException'>''"

definition ex_success :: "json \<Rightarrow> post_result" where
  "ex_success q =
     Response \<lparr>status_code = 200, headers = [],
               body = Some (JObj [(''data'', JObj [(''Media'', JNull)])])\<rparr>"

definition ex_not_found :: "json \<Rightarrow> post_result" where
  "ex_not_found q =
     Response \<lparr>status_code = 404, headers = [],
               body = Some (JObj [(''data'', JNull), (''errors'', JArr [JStr ''Not Found.''])])\<rparr>"

definition ex_unavailable :: "json \<Rightarrow> post_result" where
  "ex_unavailable q =
     Response \<lparr>status_code = 503, headers = [(''Retry-After'', ''5'')],
               body = Some (JObj [])\<rparr>"

definition ex_errors_only :: "json \<Rightarrow> post_result" where
  "ex_errors_only q =
     Response \<lparr>status_code = 200, headers = [],
               body = Some (JObj [(''errors'', JArr [JStr ''Syntax error.''])])\<rparr>"

definition ex_server_error :: "json \<Rightarrow> post_result" where
  "ex_server_error q =
     Response \<lparr>status_code = 500, headers = [],
               body = Some (JObj [(''errors'', JArr [JStr ''Internal error.''])])\<rparr>"

definition st0 :: st where
  "st0 = \<lparr>total_queries = 0, trace = []\<rparr>"

definition ex_empty_page :: "json \<Rightarrow> post_result" where
  "ex_empty_page q =
     Response \<lparr>status_code = 200, headers = [],
               body = Some (JObj [(''data'', JObj [(''Page'', JObj [])])])\<rparr>"

text \<open>
  A user, id 5, whose completed list holds the media 10 and 11, whose planning list holds
  12 and whose current list holds 10: the answer to the user query, and the one page of
  each list.
\<close>

definition ex_user :: "json \<Rightarrow> post_result" where
  "ex_user q =
     Response \<lparr>status_code = 200, headers = [],
               body = Some (JObj [(''data'', JObj [(''User'', JObj [(''id'', JInt 5)])])])\<rparr>"

definition ex_list_page :: "int list \<Rightarrow> json \<Rightarrow> post_result" where
  "ex_list_page ids q =
     Response \<lparr>status_code = 200, headers = [],
               body = Some (JObj [(''data'', JObj [(''Page'',
                 JObj [(''pageInfo'', JObj [(''hasNextPage'', JBool False)]),
                       (''mediaList'',
                        JArr (map (\<lambda>i. JObj [(''media'', media_ref (JInt i) JNull (JStr ''t''))])
                                ids))])])])\<rparr>"

definition ex_args :: args where
  "ex_args = \<lparr>username = ''someone'', planning = False, completed = False\<rparr>"



text \<open>The two-node cycle: 1 has the sequel 2, and 2 has the prequel 1.\<close>

definition ex_cycle :: graph where
  "ex_cycle i =
     (if i = 1 then [(''SEQUEL'', 2, [])]
      else if i = 2 then [(''PREQUEL'', 1, [])]
      else [])"

text \<open>A show 0 whose relations are 1, 42 and 999, in this order.\<close>

definition ex_three :: graph where
  "ex_three i =
     (if i = 0 then [(''SIDE_STORY'', 1, []), (''SIDE_STORY'', 42, []), (''SIDE_STORY'', 999, [])]
      else [])"

definition first_queued :: "json list \<Rightarrow> nat" where
  "first_queued q = 0"

text \<open>
  The same graph around the media 1 with nodes of several kinds: the side story 2 is a
  manga, the Crossover-tagged sequel 4 a movie.
\<close>

definition ex_edge :: "string \<Rightarrow> int \<Rightarrow> string list \<Rightarrow> string \<Rightarrow> edge" where
  "ex_edge t i tags kind =
     \<lparr>e_type = t, e_id = i, e_tags = tags, e_kind = kind, e_format = ''TV'',
      e_english = JNull, e_romaji = JStr ''title''\<rparr>"

definition ex_relations :: relation_graph where
  "ex_relations i =
     (if i = 1 then [ex_edge ''SIDE_STORY'' 2 [] ''MANGA'',
                     ex_edge ''SEQUEL'' 4 [''Crossover''] ''ANIME'',
                     ex_edge ''SEQUEL'' 6 [] ''ANIME'']
      else if i = 2 then [ex_edge ''SEQUEL'' 3 [] ''MANGA'']
      else if i = 4 then [ex_edge ''SEQUEL'' 5 [] ''ANIME'']
      else if i = 6 then [ex_edge ''PREQUEL'' 1 [] ''ANIME'', ex_edge ''SEQUEL'' 7 [] ''ANIME'']
      else [])"

section \<open>Properties of the Request Transport\<close>

lemma posted_append: "posted (a @ b) = posted a @ posted b"
  by (simp add: posted_def)

lemma posted_simps: "posted [] = []" "posted (Post q # tr) = q # posted tr"
  "posted (Sleep_ms n # tr) = posted tr" "posted (Print_status n # tr) = posted tr"
  "posted (Erase_status # tr) = posted tr" "posted (Print_errors j # tr) = posted tr"
  "posted (Print_blank # tr) = posted tr" "posted (Print_season a y # tr) = posted tr"
  "posted (Print_rule # tr) = posted tr" "posted (Print_title j # tr) = posted tr"
  "posted (Print_total k # tr) = posted tr"
  by (simp_all add: posted_def)

lemma wait_no_post:
  "rate_limit_wait v r = Inr evs \<Longrightarrow> posted evs = []"
  by (auto simp: rate_limit_wait_def posted_simps split: option.splits sum.splits if_splits)

lemma wait_wellformed:
  "retry_after_wellformed r \<Longrightarrow> \<exists>evs. rate_limit_wait v r = Inr evs"
  by (auto simp: rate_limit_wait_def retry_after_wellformed_def split: option.splits sum.splits)

lemma retry_prefix:
  "\<forall>f\<in>set pre. rate_limited (f q) \<Longrightarrow>
   \<exists>s'. total_queries s' = total_queries s
       \<and> posted (trace s') = posted (trace s) @ replicate (length pre) q
       \<and> (\<forall>rest. safe_post_request q v (pre @ rest) s = safe_post_request q v rest s')"
proof (induction pre arbitrary: s)
  case Nil
  show ?case by (intro exI[of _ s]) simp
next
  case (Cons f pre)
  from Cons.prems have rl: "rate_limited (f q)" and rest: "\<forall>f\<in>set pre. rate_limited (f q)"
    by simp_all
  from rl obtain s1 where
    s1: "\<forall>rest. safe_post_request q v (f # rest) s = safe_post_request q v rest s1"
    and t1: "total_queries s1 = total_queries s"
    and p1: "posted (trace s1) = posted (trace s) @ [q]"
  proof (cases "f q")
    case (Exception ty)
    with rl have ty: "ty = ''<class 'pyodide.JsException'>''" by (simp add: rate_limited_def)
    show ?thesis
      by (rule that[of "emit [Print_status 61, Sleep_ms 61000, Erase_status] (emit [Post q] s)"])
         (simp_all add: Exception ty emit_def posted_append posted_simps)
  next
    case (Response r)
    with rl have sc: "status_code r = 429" and wf: "retry_after_wellformed r"
      by (simp_all add: rate_limited_def)
    from wait_wellformed[OF wf] obtain evs where evs: "rate_limit_wait v r = Inr evs" by blast
    show ?thesis
      by (rule that[of "emit evs (emit [Post q] s)"])
         (simp_all add: Response sc evs emit_def posted_append wait_no_post[OF evs] posted_simps)
  qed
  from Cons.IH[OF rest, of s1] obtain s' where
    "total_queries s' = total_queries s1"
    "posted (trace s') = posted (trace s1) @ replicate (length pre) q"
    "\<forall>rest. safe_post_request q v (pre @ rest) s1 = safe_post_request q v rest s'"
    by blast
  with s1 t1 p1 show ?case
    by (intro exI[of _ s']) (simp add: replicate_app_Cons_same)
qed

lemma deliver_counts: "total_queries (snd (deliver r s)) = total_queries s + 1"
  by (simp add: deliver_def Let_def emit_def split: option.splits sum.splits bool.splits)

lemma deliver_posts: "posted (trace (snd (deliver r s))) = posted (trace s)"
  by (simp add: deliver_def Let_def emit_def posted_def split: option.splits sum.splits bool.splits)

lemma deliver_no_hang: "fst (deliver r s) \<noteq> Hangs"
  by (simp add: deliver_def Let_def split: option.splits sum.splits bool.splits)

lemma final_response:
  assumes "g q = Response r" and "status_code r \<noteq> 429" and "rate_limit_wait v r = Inr evs"
  shows "safe_post_request q v (g # rest) s =
           (fst (deliver r (emit evs (emit [Post q] s))), rest,
            snd (deliver r (emit evs (emit [Post q] s))))"
  using assms by (simp add: split_beta Let_def)

text \<open>
  Claim C5, as amended. The retry is decided by the status, not by the header: whatever
  number of rate-limited answers (status 429, with or without a \<^verbatim>\<open>Retry-After\<close> header,
  or the pyodide exception) precedes the first answer with another status,
  \<^verbatim>\<open>safe_post_request\<close> posts the same request once per answer, ends on that first
  non-429 response (also when it carries a \<^verbatim>\<open>Retry-After\<close> header) and has incremented
  \<^verbatim>\<open>total_queries\<close> by exactly one; as long as only rate-limited answers have arrived the
  call is still waiting and the counter is unchanged.
\<close>

theorem retry_until_non_429_counts_once:
  assumes "\<forall>f\<in>set pre. rate_limited (f q)"
    and "g q = Response r" and "status_code r \<noteq> 429" and "retry_after_wellformed r"
  shows "(\<exists>x s'. safe_post_request q v (pre @ g # rest) s = (x, rest, s')
            \<and> x \<noteq> Hangs
            \<and> total_queries s' = total_queries s + 1
            \<and> posted (trace s') = posted (trace s) @ replicate (length pre + 1) q)
       \<and> (\<exists>s'. safe_post_request q v pre s = (Hangs, [], s')
            \<and> total_queries s' = total_queries s
            \<and> posted (trace s') = posted (trace s) @ replicate (length pre) q)"
proof -
  from retry_prefix[OF assms(1), of s v] obtain s1 where
    t1: "total_queries s1 = total_queries s"
    and p1: "posted (trace s1) = posted (trace s) @ replicate (length pre) q"
    and r1: "\<forall>rest. safe_post_request q v (pre @ rest) s = safe_post_request q v rest s1"
    by blast
  from wait_wellformed[OF assms(4)] obtain evs where evs: "rate_limit_wait v r = Inr evs"
    by blast
  let ?s2 = "emit evs (emit [Post q] s1)"
  have fin: "safe_post_request q v (pre @ g # rest) s =
               (fst (deliver r ?s2), rest, snd (deliver r ?s2))"
    using r1 final_response[of g q r v evs rest s1, OF assms(2,3) evs] by simp
  have p2: "posted (trace ?s2) = posted (trace s) @ replicate (length pre + 1) q"
    using p1 wait_no_post[OF evs]
    by (simp add: emit_def posted_append replicate_append_same posted_simps)
  have t2: "total_queries ?s2 = total_queries s" using t1 by (simp add: emit_def)
  have A: "\<exists>x s'. safe_post_request q v (pre @ g # rest) s = (x, rest, s')
            \<and> x \<noteq> Hangs
            \<and> total_queries s' = total_queries s + 1
            \<and> posted (trace s') = posted (trace s) @ replicate (length pre + 1) q"
    using fin deliver_no_hang[of r ?s2] deliver_counts[of r ?s2] deliver_posts[of r ?s2] p2 t2
    by (intro exI[of _ "fst (deliver r ?s2)"] exI[of _ "snd (deliver r ?s2)"]) simp
  have "safe_post_request q v pre s = safe_post_request q v [] s1"
    using r1[rule_format, of "[]"] by simp
  then have B: "\<exists>s'. safe_post_request q v pre s = (Hangs, [], s')
            \<and> total_queries s' = total_queries s
            \<and> posted (trace s') = posted (trace s) @ replicate (length pre) q"
    using t1 p1 by (intro exI[of _ s1]) simp
  from A B show ?thesis by blast
qed

lemma printed_errors_append: "printed_errors (a @ b) = printed_errors a @ printed_errors b"
  by (simp add: printed_errors_def)

lemma printed_errors_Post: "printed_errors (Post q # tr) = printed_errors tr"
  by (simp add: printed_errors_def)

lemma wait_prints_no_errors:
  "rate_limit_wait v r = Inr evs \<Longrightarrow> printed_errors evs = []"
  by (auto simp: rate_limit_wait_def printed_errors_def split: option.splits sum.splits if_splits)

lemma retry_prefix_quiet:
  "\<forall>f\<in>set pre. rate_limited (f q) \<Longrightarrow>
   \<exists>s'. total_queries s' = total_queries s
       \<and> printed_errors (trace s') = printed_errors (trace s)
       \<and> (\<forall>rest. safe_post_request q v (pre @ rest) s = safe_post_request q v rest s')"
proof (induction pre arbitrary: s)
  case Nil
  show ?case by (intro exI[of _ s]) simp
next
  case (Cons f pre)
  from Cons.prems have rl: "rate_limited (f q)" and rest: "\<forall>f\<in>set pre. rate_limited (f q)"
    by simp_all
  from rl obtain s1 where
    s1: "\<forall>rest. safe_post_request q v (f # rest) s = safe_post_request q v rest s1"
    and t1: "total_queries s1 = total_queries s"
    and p1: "printed_errors (trace s1) = printed_errors (trace s)"
  proof (cases "f q")
    case (Exception ty)
    with rl have ty: "ty = ''<class 'pyodide.JsException'>''" by (simp add: rate_limited_def)
    show ?thesis
      by (rule that[of "emit [Print_status 61, Sleep_ms 61000, Erase_status] (emit [Post q] s)"])
         (simp_all add: Exception ty emit_def printed_errors_def)
  next
    case (Response r)
    with rl have sc: "status_code r = 429" and wf: "retry_after_wellformed r"
      by (simp_all add: rate_limited_def)
    from wait_wellformed[OF wf] obtain evs where evs: "rate_limit_wait v r = Inr evs" by blast
    show ?thesis
      by (rule that[of "emit evs (emit [Post q] s)"])
         (simp_all add: Response sc evs emit_def printed_errors_append
            wait_prints_no_errors[OF evs] printed_errors_Post)
  qed
  from Cons.IH[OF rest, of s1] obtain s' where
    "total_queries s' = total_queries s1"
    "printed_errors (trace s') = printed_errors (trace s1)"
    "\<forall>rest. safe_post_request q v (pre @ rest) s1 = safe_post_request q v rest s'"
    by blast
  with s1 t1 p1 show ?case
    by (intro exI[of _ s']) simp
qed

lemma deliver_raises_iff:
  "(\<exists>e. fst (deliver r s) = Raises e) \<longleftrightarrow>
     (400 \<le> status_code r \<and> status_code r < 600) \<or> response_data r = None"
  by (auto simp: deliver_def ok_def response_data_def Let_def
        split: option.splits sum.splits bool.splits)

lemma deliver_returns_data:
  assumes "\<not> (400 \<le> status_code r \<and> status_code r < 600)" and "response_data r = Some d"
  shows "deliver r s = (Returns d, s\<lparr>total_queries := total_queries s + 1\<rparr>)"
  using assms
  by (auto simp: deliver_def ok_def response_data_def Let_def split: option.splits sum.splits)

lemma deliver_error_status:
  assumes "400 \<le> status_code r \<and> status_code r < 600" and "body r = Some (JObj kvs)"
  shows "deliver r s =
           (Raises (HTTPError (status_code r)),
            s\<lparr>total_queries := total_queries s + 1,
              trace := trace s @ (case map_of kvs ''errors'' of
                                     None \<Rightarrow> [] | Some errs \<Rightarrow> [Print_errors errs])\<rparr>)"
  using assms
  by (auto simp: deliver_def ok_def Let_def emit_def split: option.splits)

text \<open>
  Claim C9, as amended. For a call that ends on a non-429 response (after any number of
  rate-limited answers, every \<^verbatim>\<open>Retry-After\<close> an integer): \<^verbatim>\<open>safe_post_request\<close> raises if
  and only if that response has an error status (400 to 599) or has no \<^verbatim>\<open>data\<close> field
  (its body is not JSON, is not an object, or lacks the key). With an error status and a
  body that is a JSON object, the failure is the HTTP-status failure, and an \<^verbatim>\<open>errors\<close>
  field of the body is printed as the last effect before it is raised (without the
  field nothing is printed). With any other status nothing is printed, whether the body
  has \<^verbatim>\<open>errors\<close> or not, and the \<^verbatim>\<open>data\<close> field, if there is one, is returned as it is.
\<close>

theorem raises_iff_error_status_or_no_data:
  assumes "\<forall>f\<in>set pre. rate_limited (f q)"
    and "g q = Response r" and "status_code r \<noteq> 429" and "retry_after_wellformed r"
  shows "\<exists>x s'. safe_post_request q v (pre @ g # rest) s = (x, rest, s')
           \<and> total_queries s' = total_queries s + 1
           \<and> ((\<exists>e. x = Raises e) \<longleftrightarrow>
                 (400 \<le> status_code r \<and> status_code r < 600) \<or> response_data r = None)
           \<and> (400 \<le> status_code r \<and> status_code r < 600 \<and> body r = Some (JObj kvs) \<longrightarrow>
                x = Raises (HTTPError (status_code r))
                \<and> (case map_of kvs ''errors'' of
                      None \<Rightarrow> printed_errors (trace s') = printed_errors (trace s)
                    | Some errs \<Rightarrow>
                        (\<exists>tr. trace s' = tr @ [Print_errors errs]
                              \<and> printed_errors tr = printed_errors (trace s))))
           \<and> (\<not> (400 \<le> status_code r \<and> status_code r < 600) \<longrightarrow>
                printed_errors (trace s') = printed_errors (trace s)
                \<and> (\<forall>d. response_data r = Some d \<longrightarrow> x = Returns d))"
proof -
  from retry_prefix_quiet[OF assms(1), of s v] obtain s1 where
    t1: "total_queries s1 = total_queries s"
    and p1: "printed_errors (trace s1) = printed_errors (trace s)"
    and r1: "\<forall>rest. safe_post_request q v (pre @ rest) s = safe_post_request q v rest s1"
    by blast
  from wait_wellformed[OF assms(4)] obtain evs where evs: "rate_limit_wait v r = Inr evs"
    by blast
  let ?s2 = "emit evs (emit [Post q] s1)"
  let ?x = "fst (deliver r ?s2)" and ?s' = "snd (deliver r ?s2)"
  have fin: "safe_post_request q v (pre @ g # rest) s = (?x, rest, ?s')"
    using r1 final_response[of g q r v evs rest s1, OF assms(2,3) evs] by simp
  have p2: "printed_errors (trace ?s2) = printed_errors (trace s)"
    using p1 wait_prints_no_errors[OF evs]
    by (simp add: emit_def printed_errors_append printed_errors_Post)
  have t2: "total_queries ?s2 = total_queries s" using t1 by (simp add: emit_def)
  have c1: "total_queries ?s' = total_queries s + 1"
    using deliver_counts[of r ?s2] t2 by simp
  have c2: "(\<exists>e. ?x = Raises e) \<longleftrightarrow>
              (400 \<le> status_code r \<and> status_code r < 600) \<or> response_data r = None"
    by (rule deliver_raises_iff)
  have c3: "400 \<le> status_code r \<and> status_code r < 600 \<and> body r = Some (JObj kvs) \<longrightarrow>
                ?x = Raises (HTTPError (status_code r))
                \<and> (case map_of kvs ''errors'' of
                      None \<Rightarrow> printed_errors (trace ?s') = printed_errors (trace s)
                    | Some errs \<Rightarrow>
                        (\<exists>tr. trace ?s' = tr @ [Print_errors errs]
                              \<and> printed_errors tr = printed_errors (trace s)))"
  proof (intro impI, elim conjE)
    assume e: "400 \<le> status_code r" "status_code r < 600" and b: "body r = Some (JObj kvs)"
    from e have e': "400 \<le> status_code r \<and> status_code r < 600" by simp
    show "?x = Raises (HTTPError (status_code r))
          \<and> (case map_of kvs ''errors'' of
                None \<Rightarrow> printed_errors (trace ?s') = printed_errors (trace s)
              | Some errs \<Rightarrow>
                  (\<exists>tr. trace ?s' = tr @ [Print_errors errs]
                        \<and> printed_errors tr = printed_errors (trace s)))"
      using p2 by (simp add: deliver_error_status[OF e' b] split: option.splits)
  qed
  have c4: "\<not> (400 \<le> status_code r \<and> status_code r < 600) \<longrightarrow>
                printed_errors (trace ?s') = printed_errors (trace s)
                \<and> (\<forall>d. response_data r = Some d \<longrightarrow> ?x = Returns d)"
  proof (intro impI conjI allI)
    assume ne: "\<not> (400 \<le> status_code r \<and> status_code r < 600)"
    then have "trace ?s' = trace ?s2"
      by (auto simp: deliver_def ok_def Let_def split: option.splits sum.splits)
    with p2 show "printed_errors (trace ?s') = printed_errors (trace s)" by simp
    fix d assume "response_data r = Some d"
    from deliver_returns_data[OF ne this] show "?x = Returns d" by simp
  qed
  show ?thesis
    by (intro exI[of _ ?x] exI[of _ ?s'] conjI) (rule fin, rule c1, rule c2, rule c3, rule c4)
qed

text \<open>
  The claim as first stated fails on a response that is not an error: status 200 with a
  body that has \<^verbatim>\<open>errors\<close> and no \<^verbatim>\<open>data\<close> raises a KeyError, and its \<^verbatim>\<open>errors\<close> are not
  printed.
\<close>

theorem ok_status_without_data_raises:
  "safe_post_request ex_request True [ex_errors_only] st0 =
     (Raises (KeyError ''data''), [],
      \<lparr>total_queries = 1, trace = [Post ex_request, Sleep_ms 100]\<rparr>)"
  by (simp add: ex_errors_only_def rate_limit_wait_def deliver_def ok_def emit_def st0_def)

text \<open>
  The claim C5 as first stated fails on a response that carries \<^verbatim>\<open>Retry-After\<close> without the
  status 429: a 503 with the header is waited for and then is final. The request is
  posted once and the next answer of the network is never asked for.
\<close>

lemma py_int_5: "py_int ''5'' = Inr 5"
  by (simp add: py_int_def unsigned_int_def digit_def)

theorem retry_after_without_429_not_retried:
  "safe_post_request ex_request True [ex_unavailable, ex_success] st0 =
     (Raises (HTTPError 503), [ex_success],
      \<lparr>total_queries = 1,
       trace = [Post ex_request, Print_status 6, Sleep_ms 6000, Erase_status]\<rparr>)"
  by (simp add: ex_unavailable_def rate_limit_wait_def py_int_5 deliver_def ok_def emit_def
        st0_def)

lemma py_int_2: "py_int ''2'' = Inr 2"
  by (simp add: py_int_def unsigned_int_def digit_def)

theorem retry_until_non_429_counts_once_witness:
  "(\<exists>x s'. safe_post_request ex_request True
             ([ex_rate_limited, ex_pyodide, ex_rate_limited] @ ex_success # []) st0 = (x, [], s')
            \<and> x \<noteq> Hangs
            \<and> total_queries s' = 1
            \<and> posted (trace s') = [ex_request, ex_request, ex_request, ex_request])
   \<and> (\<exists>s'. safe_post_request ex_request True [ex_rate_limited, ex_pyodide, ex_rate_limited] st0
               = (Hangs, [], s')
            \<and> total_queries s' = 0
            \<and> posted (trace s') = [ex_request, ex_request, ex_request])"
  using retry_until_non_429_counts_once
          [of "[ex_rate_limited, ex_pyodide, ex_rate_limited]" ex_request ex_success
              "\<lparr>status_code = 200, headers = [],
                 body = Some (JObj [(''data'', JObj [(''Media'', JNull)])])\<rparr>" True "[]" st0]
  by (simp add: rate_limited_def retry_after_wellformed_def ex_rate_limited_def ex_pyodide_def
        ex_success_def py_int_2 st0_def posted_simps numeral_eq_Suc)

theorem raises_iff_error_status_or_no_data_witness:
  "\<exists>x s'. safe_post_request ex_request True
             ([ex_rate_limited, ex_pyodide] @ ex_server_error # [ex_success]) st0 =
             (x, [ex_success], s')
      \<and> total_queries s' = 1
      \<and> x = Raises (HTTPError 500)
      \<and> (\<exists>tr. trace s' = tr @ [Print_errors (JArr [JStr ''Internal error.''])]
               \<and> printed_errors tr = [])"
  using raises_iff_error_status_or_no_data
          [where pre = "[ex_rate_limited, ex_pyodide]" and q = ex_request and g = ex_server_error
             and r = "\<lparr>status_code = 500, headers = [],
                        body = Some (JObj [(''errors'', JArr [JStr ''Internal error.''])])\<rparr>"
             and v = True and rest = "[ex_success]" and s = st0
             and kvs = "[(''errors'', JArr [JStr ''Internal error.''])]"]
  by (simp add: rate_limited_def retry_after_wellformed_def ex_rate_limited_def ex_pyodide_def
        ex_server_error_def py_int_2 st0_def printed_errors_def response_data_def)

section \<open>Properties of the Pagination Driver\<close>

lemma unwrap_envelope: "''pageInfo'' \<notin> set ks \<Longrightarrow> unwrap (envelope ks d) = unwrap d"
  by (induction ks) (auto simp: envelope_def)

lemma extract_empty:
  "\<exists>msg. extract_page (JObj []) = Inl (AssertionError msg)"
  by (simp add: extract_page_def)

lemma extract_many_keys:
  assumes "map_of kvs ''pageInfo'' = None" and "1 < length kvs"
  shows "\<exists>msg. extract_page (JObj kvs) = Inl (AssertionError msg)"
proof -
  from assms(2) obtain a b rest where "kvs = a # b # rest"
    by (cases kvs; cases "tl kvs") auto
  with assms(1) show ?thesis
    by (simp add: extract_page_def)
qed

lemma extract_not_two_keys:
  assumes "map_of kvs ''pageInfo'' \<noteq> None" and "length kvs \<noteq> 2"
  shows "\<exists>msg. extract_page (JObj kvs) = Inl (AssertionError msg)"
  using assms by (simp add: extract_page_def)

lemma extract_malformed:
  assumes "''pageInfo'' \<notin> set ks"
    and "kvs = [] \<or> (map_of kvs ''pageInfo'' = None \<and> 1 < length kvs)
         \<or> (map_of kvs ''pageInfo'' \<noteq> None \<and> length kvs \<noteq> 2)"
  shows "\<exists>msg. extract_page (envelope ks (JObj kvs)) = Inl (AssertionError msg)"
proof -
  have "\<exists>msg. extract_page (JObj kvs) = Inl (AssertionError msg)"
    using assms(2) extract_empty extract_many_keys extract_not_two_keys by blast
  moreover have "extract_page (envelope ks (JObj kvs)) = extract_page (JObj kvs)"
    using unwrap_envelope[OF assms(1)] by (simp add: extract_page_def)
  ultimately show ?thesis by simp
qed

text \<open>
  Claim C6. When the data of a page, unwrapped through its single-key envelopes, comes to
  an empty object before any \<^verbatim>\<open>pageInfo\<close>, or to an object of several keys without
  \<^verbatim>\<open>pageInfo\<close>, or to an object that has \<^verbatim>\<open>pageInfo\<close> but not exactly two keys, the
  driver raises an AssertionError at once: the network and the state are those the one
  request of this page left (no retry, no further page), and the items accumulated so
  far are not returned.
\<close>

theorem malformed_page_fails_loudly:
  assumes "safe_post_request (page_request query pv page_num) verbose nt s =
             (Returns (envelope ks (JObj kvs)), nt', s')"
    and "''pageInfo'' \<notin> set ks"
    and "kvs = [] \<or> (map_of kvs ''pageInfo'' = None \<and> 1 < length kvs)
         \<or> (map_of kvs ''pageInfo'' \<noteq> None \<and> length kvs \<noteq> 2)"
  shows "\<exists>msg. page_loop query pv verbose page_num out_list nt s =
                 (Raises (AssertionError msg), nt', s')"
proof -
  from extract_malformed[OF assms(2,3)] obtain msg where
    "extract_page (envelope ks (JObj kvs)) = Inl (AssertionError msg)" by blast
  with assms(1) show ?thesis
    by (subst page_loop.simps) (simp add: page_request_def Let_def)
qed

lemma source_answers:
  assumes "map_of pv ''perPage'' = Some (JInt n)" and "1 \<le> p" and "1 \<le> n"
  shows "page_source items (page_request q pv p) =
           Response \<lparr>status_code = 200, headers = [],
                     body = Some (JObj [(''data'', page_body items p n)])\<rparr>"
  using assms by (simp add: page_source_def page_request_def update_conv')

lemma fetch_page:
  assumes "map_of pv ''perPage'' = Some (JInt n)" and "1 \<le> p" and "1 \<le> n"
  shows "safe_post_request (page_request q pv p) v (page_source items # rest) s =
           (Returns (page_body items p n), rest,
            s\<lparr>total_queries := total_queries s + 1,
              trace := trace s @ [Post (page_request q pv p), Sleep_ms 100]\<rparr>)"
  by (simp add: source_answers[OF assms] rate_limit_wait_def deliver_def ok_def emit_def)

lemma extract_page_body:
  "extract_page (page_body items p n) =
     Inr (take (nat n) (drop (nat ((p - 1) * n)) items), p * n < int (length items))"
  by (simp add: page_body_def extract_page_def other_value_def)

lemma page_loop_source:
  assumes "k = pages_fetched (length items) - j"
    and "j * 50 < length items \<or> j = 0"
    and "k \<le> m"
    and "map_of pv ''perPage'' = Some (JInt 50)"
  shows "page_loop q pv v (int j + 1) (take (j * 50) items) (replicate m (page_source items)) s =
           (Returns items, replicate (m - k) (page_source items),
            s\<lparr>total_queries := total_queries s + k,
              trace := trace s
                 @ concat (map (\<lambda>i. [Post (page_request q pv (int i + 1)), Sleep_ms 100])
                             [j ..< j + k])\<rparr>)"
  using assms
proof (induction k arbitrary: j m s pv)
  case 0
  then have False by (auto simp: pages_fetched_def)
  then show ?case ..
next
  case (Suc k)
  from Suc.prems(3) obtain m' where m: "m = Suc m'" and km: "k \<le> m'"
    by (cases m) auto
  let ?p = "int j + 1"
  let ?pv = "AList.update ''page'' (JInt ?p) pv"
  let ?s1 = "s\<lparr>total_queries := total_queries s + 1,
                trace := trace s @ [Post (page_request q pv ?p), Sleep_ms 100]\<rparr>"
  have fetch: "safe_post_request (JObj [(''query'', JStr q), (''variables'', JObj ?pv)]) v
                 (page_source items # replicate m' (page_source items)) s =
               (Returns (page_body items ?p 50), replicate m' (page_source items), ?s1)"
    using fetch_page[OF Suc.prems(4), of ?p q v items "replicate m' (page_source items)" s]
    by (simp add: page_request_def)
  have slice: "take (j * 50) items @ take 50 (drop (j * 50) items) = take (Suc j * 50) items"
    by (simp add: take_add[symmetric] add.commute)
  have ext: "extract_page (page_body items ?p 50) =
               Inr (take 50 (drop (j * 50) items), Suc j * 50 < length items)"
    by (simp add: extract_page_body nat_mult_distrib) linarith
  show ?case
  proof (cases "Suc j * 50 < length items")
    case True
    have k: "k = pages_fetched (length items) - Suc j"
      using Suc.prems(1) by simp
    have pp: "map_of ?pv ''perPage'' = Some (JInt 50)"
      using Suc.prems(4) by (simp add: update_conv')
    have req: "\<And>i. page_request q ?pv i = page_request q pv i"
      by (simp add: page_request_def)
    have idx: "[j ..< Suc (j + k)] = j # [Suc j ..< Suc (j + k)]"
      by (simp add: upt_rec)
    have more: "Suc j * 50 < length items \<or> Suc j = 0"
      using True by simp
    have step: "page_loop q pv v ?p (take (j * 50) items) (replicate m (page_source items)) s =
                page_loop q ?pv v (int (Suc j) + 1) (take (Suc j * 50) items)
                  (replicate m' (page_source items)) ?s1"
      using True slice
      by (subst page_loop.simps)
         (simp add: m fetch ext Let_def del: safe_post_request.simps)
    have "m' - k = m - Suc k" using m by simp
    with Suc.IH[OF k more km pp, of ?s1]
    show ?thesis
      unfolding step by (simp add: req idx del: upt_Suc)
  next
    case False
    then have all: "take (Suc j * 50) items = items" by simp
    have "pages_fetched (length items) = Suc j"
      using False Suc.prems(2) by (auto simp: pages_fetched_def max_def)
    with Suc.prems(1) have k0: "k = 0" by simp
    show ?thesis
      using False slice all
      by (subst page_loop.simps)
         (simp add: m fetch ext Let_def k0 del: safe_post_request.simps)
  qed
qed

text \<open>
  Claim C2, as amended. For a paginated source of \<open>N\<close> items, \<^verbatim>\<open>depaginated_request\<close>
  returns exactly the \<open>N\<close> items in the order of the source. It posts pages 1, 2, ...
  with \<^verbatim>\<open>perPage\<close> fixed at 50, one request per page, and stops at the first page without
  a next page: \<open>ceil(N/50)\<close> requests, and one request when \<open>N = 0\<close>.
\<close>

theorem depaginate_returns_all_items:
  assumes "pages_fetched (length items) \<le> m"
  shows "depaginated_request q variables v (replicate m (page_source items)) s =
           (Returns items,
            replicate (m - pages_fetched (length items)) (page_source items),
            s\<lparr>total_queries := total_queries s + pages_fetched (length items),
              trace := trace s
                 @ concat (map (\<lambda>i. [Post (page_request q
                                          (AList.update ''perPage'' (JInt 50) variables)
                                          (int i + 1)),
                                   Sleep_ms 100])
                             [0 ..< pages_fetched (length items)])\<rparr>)"
proof -
  have pp: "map_of (AList.update ''perPage'' (JInt 50) variables) ''perPage'' = Some (JInt 50)"
    by (simp add: update_conv')
  have "page_loop q (AList.update ''perPage'' (JInt 50) variables) v (int 0 + 1)
          (take (0 * 50) items) (replicate m (page_source items)) s =
        (Returns items,
         replicate (m - pages_fetched (length items)) (page_source items),
         s\<lparr>total_queries := total_queries s + pages_fetched (length items),
           trace := trace s
              @ concat (map (\<lambda>i. [Post (page_request q
                                       (AList.update ''perPage'' (JInt 50) variables)
                                       (int i + 1)),
                                Sleep_ms 100])
                          [0 ..< 0 + pages_fetched (length items)])\<rparr>)"
    by (rule page_loop_source[OF _ _ assms pp]) simp_all
  then show ?thesis
    by (simp add: depaginated_request_def MAX_PAGE_SIZE_def)
qed

theorem depaginate_returns_all_items_witness:
  "depaginated_request ''q'' [(''userId'', JInt 7)] True
       (replicate 2 (page_source (replicate 51 JNull))) st0 =
     (Returns (replicate 51 JNull), [],
      \<lparr>total_queries = 2,
       trace = [Post (page_request ''q'' [(''userId'', JInt 7), (''perPage'', JInt 50)] 1),
                Sleep_ms 100,
                Post (page_request ''q'' [(''userId'', JInt 7), (''perPage'', JInt 50)] 2),
                Sleep_ms 100]\<rparr>)"
  using depaginate_returns_all_items
          [of "replicate 51 JNull" 2 "''q''" "[(''userId'', JInt 7)]" True st0]
  by (simp add: pages_fetched_def st0_def numeral_2_eq_2)

text \<open>
  The claim as first stated, with \<open>ceil(N/P)\<close> requests for every \<open>N\<close>, fails for the
  empty source: the driver asks for page 1 before it can know that there is nothing.
\<close>

theorem empty_source_one_request:
  "length (posted (trace (snd (snd (depaginated_request ''q'' [] True [page_source []] st0)))))
     \<noteq> (length ([] :: json list) + 49) div 50"
  using depaginate_returns_all_items[of "[]" 1 "''q''" "[]" True st0]
  by (simp add: pages_fetched_def st0_def posted_simps)

theorem malformed_page_fails_loudly_witness:
  "\<exists>msg. page_loop ''q'' [(''perPage'', JInt 50)] True 3 [JInt 1, JInt 2] [ex_empty_page] st0 =
      (Raises (AssertionError msg), [],
       \<lparr>total_queries = 1,
        trace = [Post (page_request ''q'' [(''perPage'', JInt 50)] 3), Sleep_ms 100]\<rparr>)"
  using malformed_page_fails_loudly
          [of "''q''" "[(''perPage'', JInt 50)]" 3 True "[ex_empty_page]" st0 "[''Page'']" "[]" "[]"
              "\<lparr>total_queries = 1,
                trace = [Post (page_request ''q'' [(''perPage'', JInt 50)] 3), Sleep_ms 100]\<rparr>"
              "[JInt 1, JInt 2]"]
  by (simp add: ex_empty_page_def envelope_def rate_limit_wait_def deliver_def ok_def emit_def
        st0_def)

section \<open>Properties of the Relation Graph Walker\<close>

lemma run_loop_induct [consumes 1, case_names go_on yield stop raises hangs]:
  assumes "run_loop sel r f nt s = res"
    and "\<And>f nt s f1 nt1 s1. step sel r f nt s = (Returns (Go_on, f1), nt1, s1) \<Longrightarrow>
           run_loop sel r f1 nt1 s1 = res \<Longrightarrow> P f1 nt1 s1 \<Longrightarrow> P f nt s"
    and "\<And>f nt s m f1 nt1 s1. step sel r f nt s = (Returns (Yield m, f1), nt1, s1) \<Longrightarrow>
           res = (Returns (Some m), Suspended r f1, nt1, s1) \<Longrightarrow> P f nt s"
    and "\<And>f nt s f1 nt1 s1. step sel r f nt s = (Returns (Stop, f1), nt1, s1) \<Longrightarrow>
           res = (Returns None, Finished, nt1, s1) \<Longrightarrow> P f nt s"
    and "\<And>f nt s e nt1 s1. step sel r f nt s = (Raises e, nt1, s1) \<Longrightarrow>
           res = (Raises e, Finished, nt1, s1) \<Longrightarrow> P f nt s"
    and "\<And>f nt s nt1 s1. step sel r f nt s = (Hangs, nt1, s1) \<Longrightarrow>
           res = (Hangs, Finished, nt1, s1) \<Longrightarrow> P f nt s"
  shows "P f nt s"
  using assms
proof (induction sel r f nt s rule: run_loop.induct)
  case (1 sel r f nt s)
  note run = "1.prems"(1) and go = "1.prems"(2) and yi = "1.prems"(3) and sto = "1.prems"(4)
    and rai = "1.prems"(5) and han = "1.prems"(6)
  obtain x nt1 s1 where st: "step sel r f nt s = (x, nt1, s1)"
    by (cases "step sel r f nt s") auto
  show ?case
  proof (cases x)
    case (Returns af)
    obtain a f1 where af: "af = (a, f1)" by (cases af) auto
    show ?thesis
    proof (cases a)
      case Go_on
      have rl: "run_loop sel r f1 nt1 s1 = res"
        using run st Returns af Go_on by (subst (asm) run_loop.simps) simp
      have p1: "P f1 nt1 s1"
        by (rule "1.IH"[OF st[symmetric] Returns[unfolded af] refl Go_on refl rl go yi sto rai han])
      have st1: "step sel r f nt s = (Returns (Go_on, f1), nt1, s1)"
        using st Returns af Go_on by simp
      show ?thesis by (rule go[OF st1 rl p1])
    next
      case (Yield m)
      have "res = (Returns (Some m), Suspended r f1, nt1, s1)"
        using run st Returns af Yield by (subst (asm) run_loop.simps) simp
      moreover have "step sel r f nt s = (Returns (Yield m, f1), nt1, s1)"
        using st Returns af Yield by simp
      ultimately show ?thesis using yi by blast
    next
      case Stop
      have "res = (Returns None, Finished, nt1, s1)"
        using run st Returns af Stop by (subst (asm) run_loop.simps) simp
      moreover have "step sel r f nt s = (Returns (Stop, f1), nt1, s1)"
        using st Returns af Stop by simp
      ultimately show ?thesis using sto by blast
    qed
  next
    case (Raises e)
    have "res = (Raises e, Finished, nt1, s1)"
      using run st Raises by (subst (asm) run_loop.simps) simp
    moreover have "step sel r f nt s = (Raises e, nt1, s1)"
      using st Raises by simp
    ultimately show ?thesis using rai by blast
  next
    case Hangs
    have "res = (Hangs, Finished, nt1, s1)"
      using run st Hangs by (subst (asm) run_loop.simps) simp
    moreover have "step sel r f nt s = (Hangs, nt1, s1)"
      using st Hangs by simp
    ultimately show ?thesis using han by blast
  qed
qed



lemma node_json_id [simp]: "py_getitem (node_json i tags) ''id'' = Inr (JInt i)"
  by (simp add: node_json_def)

lemma edge_json_node [simp]: "py_getitem (edge_json t i tags) ''node'' = Inr (node_json i tags)"
  by (simp add: edge_json_def)




lemmas eval_walk = drain.simps walker_next_def get_related_media_def run_loop.simps step_def
  queue_pop_def queue_add_def first_queued_def relations_answer_def relations_data_def
  relation_edges_def relations_request_def skip_expansion_def chained_types_def
  edge_json_def node_json_def rate_limit_wait_def deliver_def ok_def emit_def Let_def

lemma ex_cycle_walk:
  "drain first_queued (get_related_media (JInt 1)) [relations_answer ex_cycle, relations_answer ex_cycle] st0 =
     ([node_json 2 []], Returns (), Finished, [],
      \<lparr>total_queries = 2,
       trace = [Post (relations_request (JInt 1)), Sleep_ms 100,
                Post (relations_request (JInt 2)), Sleep_ms 100]\<rparr>)"
  by (simp add: eval_walk ex_cycle_def st0_def)




lemma step_yield_facts:
  assumes "step sel r f nt s = (Returns (Yield m, f'), nt', s')"
  shows "\<exists>i. py_getitem m ''id'' = Inr i \<and> \<not> unhashable i \<and> hkey i \<notin> related_show_ids f
             \<and> hkey i \<noteq> hkey r \<and> related_show_ids f' = insert (hkey i) (related_show_ids f)"
proof (cases "pending f")
  case (Some p)
  with assms show ?thesis
    by (cases p) (auto simp: step_def split: sum.splits bool.splits)
next
  case None
  show ?thesis
  proof (cases "relations f")
    case Nil
    with None assms show ?thesis
      by (auto simp: step_def split: if_splits prod.splits res.splits sum.splits)
  next
    case (Cons relation rest)
    with None assms show ?thesis
      by (auto simp: step_def split: sum.splits if_splits)
  qed
qed

lemma run_loop_yield_has_id:
  assumes "run_loop sel r f nt s = (Returns (Some x), w', nt', s')"
  shows "\<exists>i. py_getitem x ''id'' = Inr i \<and> \<not> unhashable i"
  using assms
proof (induction rule: run_loop_induct)
  case (yield f nt s m f1 nt1 s1)
  then show ?case using step_yield_facts[of sel r f nt s m f1 nt1 s1] by auto
qed simp_all

lemma walker_yield_has_id:
  assumes "walker_next sel w nt s = (Returns (Some x), w', nt', s')"
  shows "\<exists>i. py_getitem x ''id'' = Inr i \<and> \<not> unhashable i"
  using assms run_loop_yield_has_id
  by (cases w) (auto simp: walker_next_def split: if_splits)

lemma related_in_next_yield:
  assumes "walker_next sel w nt s = (Returns (Some x), w', nt', s')"
  shows "related_in_next sel u w nt s = (Returns (Some (in_user_set u x)), w', nt', s')"
  using assms walker_yield_has_id[OF assms]
  by (auto simp: related_in_next_def in_user_set_def yield_key_def)

lemma async_any_hit:
  assumes "walker_next sel w nt s = (Returns (Some x), w', nt', s')" and "in_user_set u x"
  shows "async_any sel u w nt s = (Returns True, w', nt', s')"
  using related_in_next_yield[OF assms(1), of u] assms(2)
  by (subst async_any.simps) simp

lemma async_any_miss:
  assumes "walker_next sel w nt s = (Returns (Some x), w', nt', s')" and "\<not> in_user_set u x"
  shows "async_any sel u w nt s = async_any sel u w' nt' s'"
  using related_in_next_yield[OF assms(1), of u] assms(2)
  by (subst async_any.simps) simp

lemma async_any_end:
  assumes "walker_next sel w nt s = (Returns None, w', nt', s')"
  shows "async_any sel u w nt s = (Returns False, w', nt', s')"
  using assms by (subst async_any.simps) (simp add: related_in_next_def)

lemma async_any_first_match:
  assumes "pulls (Suc (length ys)) sel w nt s = (ys @ [y], w', nt', s')"
    and "\<forall>x\<in>set ys. \<not> in_user_set u x" and "in_user_set u y"
  shows "async_any sel u w nt s = (Returns True, w', nt', s')"
  using assms
proof (induction ys arbitrary: w nt s)
  case Nil
  from Nil.prems(1) have "walker_next sel w nt s = (Returns (Some y), w', nt', s')"
    by (auto split: prod.splits res.splits option.splits)
  from async_any_hit[OF this Nil.prems(3)] show ?case .
next
  case (Cons x ys)
  from Cons.prems(1) obtain w1 nt1 s1 where
    nx: "walker_next sel w nt s = (Returns (Some x), w1, nt1, s1)"
    and rest: "pulls (Suc (length ys)) sel w1 nt1 s1 = (ys @ [y], w', nt', s')"
    by (auto split: prod.splits res.splits option.splits)
  from Cons.prems(2) have miss: "\<not> in_user_set u x" and others: "\<forall>x\<in>set ys. \<not> in_user_set u x"
    by simp_all
  from Cons.IH[OF rest others Cons.prems(3)] async_any_miss[OF nx miss]
  show ?case by simp
qed

lemma drain_cases:
  "drain sel w nt s =
     (case walker_next sel w nt s of
        (Returns (Some x), w', nt', s') \<Rightarrow>
          (x # fst (drain sel w' nt' s'), snd (drain sel w' nt' s'))
      | (Returns None, w', nt', s') \<Rightarrow> ([], Returns (), w', nt', s')
      | (Raises e, w', nt', s') \<Rightarrow> ([], Raises e, w', nt', s')
      | (Hangs, w', nt', s') \<Rightarrow> ([], Hangs, w', nt', s'))"
  by (subst drain.simps) (simp split: prod.splits res.splits option.splits)

lemma drain_end:
  assumes "drain sel w nt s = ([], Returns (), w', nt', s')"
  shows "walker_next sel w nt s = (Returns None, w', nt', s')"
  using assms
  by (subst (asm) drain_cases) (auto split: prod.splits res.splits option.splits)

lemma drain_more:
  assumes "drain sel w nt s = (x # xs, t)"
  shows "\<exists>w1 nt1 s1. walker_next sel w nt s = (Returns (Some x), w1, nt1, s1)
           \<and> drain sel w1 nt1 s1 = (xs, t)"
  using assms
  by (subst (asm) drain_cases) (auto split: prod.splits res.splits option.splits)

lemma async_any_exhausted:
  assumes "drain sel w nt s = (ys, Returns (), w', nt', s')"
    and "\<forall>x\<in>set ys. \<not> in_user_set u x"
  shows "async_any sel u w nt s = (Returns False, w', nt', s')"
  using assms
proof (induction ys arbitrary: w nt s)
  case Nil
  from async_any_end[OF drain_end[OF Nil.prems(1)]] show ?case .
next
  case (Cons x xs)
  from drain_more[OF Cons.prems(1)] obtain w1 nt1 s1 where
    nx: "walker_next sel w nt s = (Returns (Some x), w1, nt1, s1)"
    and dr: "drain sel w1 nt1 s1 = (xs, Returns (), w', nt', s')"
    by blast
  from Cons.prems(2) have miss: "\<not> in_user_set u x" and others: "\<forall>x\<in>set xs. \<not> in_user_set u x"
    by simp_all
  from Cons.IH[OF dr others] async_any_miss[OF nx miss] show ?case by simp
qed

lemma async_any_false_only_exhausted:
  assumes "async_any sel u w nt s = (Returns False, w', nt', s')"
  shows "\<exists>ys. drain sel w nt s = (ys, Returns (), w', nt', s') \<and> (\<forall>x\<in>set ys. \<not> in_user_set u x)"
  using assms
proof (induction sel u w nt s rule: async_any.induct)
  case (1 sel u w nt s)
  obtain r w1 nt1 s1 where nx: "walker_next sel w nt s = (r, w1, nt1, s1)"
    by (cases "walker_next sel w nt s") auto
  show ?case
  proof (cases r)
    case (Returns o1)
    show ?thesis
    proof (cases o1)
      case None
      with nx Returns have e: "walker_next sel w nt s = (Returns None, w1, nt1, s1)" by simp
      from async_any_end[OF e, of u] "1.prems" have "w1 = w'" "nt1 = nt'" "s1 = s'" by simp_all
      with e have "drain sel w nt s = ([], Returns (), w', nt', s')"
        by (subst drain_cases) simp
      then show ?thesis by simp
    next
      case (Some x)
      with nx Returns have y: "walker_next sel w nt s = (Returns (Some x), w1, nt1, s1)" by simp
      have miss: "\<not> in_user_set u x"
      proof
        assume "in_user_set u x"
        from async_any_hit[OF y this] "1.prems" show False by simp
      qed
      from async_any_miss[OF y miss] "1.prems"
      have nxt: "async_any sel u w1 nt1 s1 = (Returns False, w', nt', s')" by simp
      have rin: "related_in_next sel u w nt s = (Returns (Some False), w1, nt1, s1)"
        using related_in_next_yield[OF y, of u] miss by simp
      from "1.IH"[OF rin[symmetric] refl refl refl refl _ nxt]
      obtain ys where "drain sel w1 nt1 s1 = (ys, Returns (), w', nt', s')"
        and "\<forall>x\<in>set ys. \<not> in_user_set u x" by auto
      with y miss have "drain sel w nt s = (x # ys, Returns (), w', nt', s')
          \<and> (\<forall>x\<in>set (x # ys). \<not> in_user_set u x)"
        by (subst drain_cases) simp
      then show ?thesis by blast
    qed
  next
    case (Raises e)
    with "1.prems" nx show ?thesis
      by (subst (asm) async_any.simps) (simp add: related_in_next_def)
  next
    case Hangs
    with "1.prems" nx show ?thesis
      by (subst (asm) async_any.simps) (simp add: related_in_next_def)
  qed
qed

lemma async_any_true_has_match:
  assumes "async_any sel u w nt s = (Returns True, w', nt', s')"
  shows "\<exists>ys y. pulls (Suc (length ys)) sel w nt s = (ys @ [y], w', nt', s')
           \<and> (\<forall>x\<in>set ys. \<not> in_user_set u x) \<and> in_user_set u y"
  using assms
proof (induction sel u w nt s rule: async_any.induct)
  case (1 sel u w nt s)
  obtain r w1 nt1 s1 where nx: "walker_next sel w nt s = (r, w1, nt1, s1)"
    by (cases "walker_next sel w nt s") auto
  show ?case
  proof (cases r)
    case (Returns o1)
    show ?thesis
    proof (cases o1)
      case None
      with nx Returns have e: "walker_next sel w nt s = (Returns None, w1, nt1, s1)" by simp
      from async_any_end[OF e, of u] "1.prems" show ?thesis by simp
    next
      case (Some x)
      with nx Returns have y: "walker_next sel w nt s = (Returns (Some x), w1, nt1, s1)" by simp
      show ?thesis
      proof (cases "in_user_set u x")
        case True
        from async_any_hit[OF y True] "1.prems" have "w1 = w'" "nt1 = nt'" "s1 = s'" by simp_all
        with y True have "pulls (Suc (length ([]::json list))) sel w nt s = ([] @ [x], w', nt', s')
            \<and> (\<forall>x\<in>set ([]::json list). \<not> in_user_set u x) \<and> in_user_set u x"
          by simp
        then show ?thesis by blast
      next
        case False
        from async_any_miss[OF y False] "1.prems"
        have nxt: "async_any sel u w1 nt1 s1 = (Returns True, w', nt', s')" by simp
        have rin: "related_in_next sel u w nt s = (Returns (Some False), w1, nt1, s1)"
          using related_in_next_yield[OF y, of u] False by simp
        from "1.IH"[OF rin[symmetric] refl refl refl refl _ nxt]
        obtain ys z where "pulls (Suc (length ys)) sel w1 nt1 s1 = (ys @ [z], w', nt', s')"
          and "\<forall>x\<in>set ys. \<not> in_user_set u x" and "in_user_set u z" by auto
        with y False have "pulls (Suc (length (x # ys))) sel w nt s = ((x # ys) @ [z], w', nt', s')
            \<and> (\<forall>x\<in>set (x # ys). \<not> in_user_set u x) \<and> in_user_set u z"
          by simp
        then show ?thesis by blast
      qed
    qed
  next
    case (Raises e)
    with "1.prems" nx show ?thesis
      by (subst (asm) async_any.simps) (simp add: related_in_next_def)
  next
    case Hangs
    with "1.prems" nx show ?thesis
      by (subst (asm) async_any.simps) (simp add: related_in_next_def)
  qed
qed

text \<open>
  Claim C4. Over the walk of any show, with any set of user media ids: \<^verbatim>\<open>async_any\<close> returns
  true exactly when some yielded node has its id in the set, and then it has asked the
  walker for the nodes up to the first such one and no further (the walker, the network
  and the state are those left by that many requests for an item); it returns false
  exactly when the walk has been run to its end and no yielded node was in the set.
\<close>

theorem matcher_short_circuits:
  "(async_any sel u (get_related_media show_id) nt s = (Returns True, w', nt', s')
      \<longleftrightarrow> (\<exists>ys y. pulls (Suc (length ys)) sel (get_related_media show_id) nt s
                       = (ys @ [y], w', nt', s')
                   \<and> (\<forall>x\<in>set ys. \<not> in_user_set u x) \<and> in_user_set u y))
   \<and> (async_any sel u (get_related_media show_id) nt s = (Returns False, w', nt', s')
      \<longleftrightarrow> (\<exists>ys. drain sel (get_related_media show_id) nt s = (ys, Returns (), w', nt', s')
                \<and> (\<forall>x\<in>set ys. \<not> in_user_set u x)))"
proof (intro conjI iffI)
  assume "async_any sel u (get_related_media show_id) nt s = (Returns True, w', nt', s')"
  then show "\<exists>ys y. pulls (Suc (length ys)) sel (get_related_media show_id) nt s
                       = (ys @ [y], w', nt', s')
                   \<and> (\<forall>x\<in>set ys. \<not> in_user_set u x) \<and> in_user_set u y"
    by (rule async_any_true_has_match)
next
  assume "\<exists>ys y. pulls (Suc (length ys)) sel (get_related_media show_id) nt s
                       = (ys @ [y], w', nt', s')
                   \<and> (\<forall>x\<in>set ys. \<not> in_user_set u x) \<and> in_user_set u y"
  then obtain ys y where
    "pulls (Suc (length ys)) sel (get_related_media show_id) nt s = (ys @ [y], w', nt', s')"
    and "\<forall>x\<in>set ys. \<not> in_user_set u x" and "in_user_set u y"
    by blast
  then show "async_any sel u (get_related_media show_id) nt s = (Returns True, w', nt', s')"
    by (rule async_any_first_match)
next
  assume "async_any sel u (get_related_media show_id) nt s = (Returns False, w', nt', s')"
  then show "\<exists>ys. drain sel (get_related_media show_id) nt s = (ys, Returns (), w', nt', s')
                \<and> (\<forall>x\<in>set ys. \<not> in_user_set u x)"
    by (rule async_any_false_only_exhausted)
next
  assume "\<exists>ys. drain sel (get_related_media show_id) nt s = (ys, Returns (), w', nt', s')
                \<and> (\<forall>x\<in>set ys. \<not> in_user_set u x)"
  then obtain ys where
    "drain sel (get_related_media show_id) nt s = (ys, Returns (), w', nt', s')"
    and "\<forall>x\<in>set ys. \<not> in_user_set u x"
    by blast
  then show "async_any sel u (get_related_media show_id) nt s = (Returns False, w', nt', s')"
    by (rule async_any_exhausted)
qed

lemma ex_three_pulls:
  "pulls 2 first_queued (get_related_media (JInt 0)) [relations_answer ex_three] st0 =
     ([node_json 1 []] @ [node_json 42 []],
      Suspended (JInt 0)
        \<lparr>pending = Some (edge_json ''SIDE_STORY'' 42 [], node_json 42 []),
         relations = [edge_json ''SIDE_STORY'' 999 []], queue = [],
         related_show_ids = {JInt 42, JInt 1, JInt 0}\<rparr>,
      [], \<lparr>total_queries = 1, trace = [Post (relations_request (JInt 0)), Sleep_ms 100]\<rparr>)"
  by (simp add: eval_walk ex_three_def st0_def eval_nat_numeral)

theorem matcher_short_circuits_witness:
  "async_any first_queued {JInt 42} (get_related_media (JInt 0)) [relations_answer ex_three] st0 =
     (Returns True,
      Suspended (JInt 0)
        \<lparr>pending = Some (edge_json ''SIDE_STORY'' 42 [], node_json 42 []),
         relations = [edge_json ''SIDE_STORY'' 999 []], queue = [],
         related_show_ids = {JInt 42, JInt 1, JInt 0}\<rparr>,
      [], \<lparr>total_queries = 1, trace = [Post (relations_request (JInt 0)), Sleep_ms 100]\<rparr>)"
proof -
  have "\<exists>ys y. pulls (Suc (length ys)) first_queued (get_related_media (JInt 0))
                 [relations_answer ex_three] st0 =
     (ys @ [y],
      Suspended (JInt 0)
        \<lparr>pending = Some (edge_json ''SIDE_STORY'' 42 [], node_json 42 []),
         relations = [edge_json ''SIDE_STORY'' 999 []], queue = [],
         related_show_ids = {JInt 42, JInt 1, JInt 0}\<rparr>,
      [], \<lparr>total_queries = 1, trace = [Post (relations_request (JInt 0)), Sleep_ms 100]\<rparr>)
     \<and> (\<forall>x\<in>set ys. \<not> in_user_set {JInt 42} x) \<and> in_user_set {JInt 42} y"
    using ex_three_pulls
    by (intro exI[of _ "[node_json 1 []]"] exI[of _ "node_json 42 []"])
       (simp add: in_user_set_def yield_key_def numeral_2_eq_2)
  then show ?thesis
    using matcher_short_circuits
            [where sel = first_queued and u = "{JInt 42}" and show_id = "JInt 0"
               and nt = "[relations_answer ex_three]" and s = st0]
    by blast
qed

lemma queue_add_keys: "hkey ` set (queue_add q x) = insert (hkey x) (hkey ` set q)"
  by (auto simp: queue_add_def)

lemma queue_add_elem:
  "x \<in> set (queue_add q y) \<Longrightarrow> hkey x \<in> hkey ` set q \<or> hkey x = hkey y"
  by (auto simp: queue_add_def split: if_splits)

lemma queue_pop_sub: "queue_pop sel q = (c, q') \<Longrightarrow> set q' \<subseteq> set q"
  by (auto simp: queue_pop_def Let_def dest: in_set_takeD in_set_dropD)

lemma step_monotone:
  assumes "step sel r f nt s = (Returns (a, f'), nt', s')"
  shows "related_show_ids f \<subseteq> related_show_ids f'
       \<and> frontier f' - frontier f \<subseteq> related_show_ids f' - related_show_ids f"
proof (cases "pending f")
  case (Some p)
  obtain relation media where p: "p = (relation, media)" by (cases p) auto
  from assms Some p have same: "related_show_ids f' = related_show_ids f"
    by (auto simp: step_def split: sum.splits bool.splits)
  from assms Some p have "frontier f' \<subseteq> frontier f"
    by (auto simp: step_def frontier_def yield_key_def dest!: queue_add_elem
          split: sum.splits bool.splits)
  with same show ?thesis by auto
next
  case None
  show ?thesis
  proof (cases "relations f")
    case (Cons relation rest)
    with None assms show ?thesis
      by (auto simp: step_def frontier_def yield_key_def split: sum.splits if_splits)
  next
    case Nil
    show ?thesis
    proof (cases "queue f = []")
      case True
      with None Nil assms show ?thesis by (simp add: step_def)
    next
      case False
      obtain c q' where pop: "queue_pop sel (queue f) = (c, q')"
        by (cases "queue_pop sel (queue f)") auto
      from None Nil False pop assms obtain rels where "f' = f\<lparr>relations := rels, queue := q'\<rparr>"
        by (auto simp: step_def split: prod.splits res.splits sum.splits)
      with queue_pop_sub[OF pop] None show ?thesis
        by (auto simp: frontier_def)
    qed
  qed
qed

lemma run_loop_yield_fresh:
  assumes "run_loop sel r f nt s = (Returns (Some x), w', nt', s')"
  shows "\<exists>f'. w' = Suspended r f' \<and> yield_key x \<notin> related_show_ids f \<and> yield_key x \<noteq> hkey r
             \<and> yield_key x \<in> related_show_ids f'
             \<and> related_show_ids f \<subseteq> related_show_ids f'"
  using assms
proof (induction rule: run_loop_induct)
  case (go_on f nt s f1 nt1 s1)
  from step_monotone[OF go_on(1)] go_on(3) show ?case by auto
next
  case (yield f nt s m f1 nt1 s1)
  from step_yield_facts[OF yield(1)] step_monotone[OF yield(1)] yield(2)
  show ?case by (auto simp: yield_key_def)
qed simp_all

lemma run_loop_ends_finished:
  assumes "run_loop sel r f nt s = (x, w', nt', s')" and "\<forall>y. x \<noteq> Returns (Some y)"
  shows "w' = Finished"
  using assms
  by (induction rule: run_loop_induct) auto

lemma drain_suspended_fresh:
  assumes "drain sel (Suspended r f) nt s = (ys, t)"
  shows "distinct (map yield_key ys)
       \<and> (\<forall>y\<in>set ys. yield_key y \<notin> related_show_ids f \<and> yield_key y \<noteq> hkey r)"
  using assms
proof (induction ys arbitrary: f nt s)
  case Nil
  show ?case by simp
next
  case (Cons x xs)
  from drain_more[OF Cons.prems] obtain w1 nt1 s1 where
    nx: "walker_next sel (Suspended r f) nt s = (Returns (Some x), w1, nt1, s1)"
    and dr: "drain sel w1 nt1 s1 = (xs, t)" by blast
  from nx have "run_loop sel r f nt s = (Returns (Some x), w1, nt1, s1)"
    by (simp add: walker_next_def)
  from run_loop_yield_fresh[OF this] obtain f1 where
    w1: "w1 = Suspended r f1" and fresh: "yield_key x \<notin> related_show_ids f"
    and nr: "yield_key x \<noteq> hkey r" and inn: "yield_key x \<in> related_show_ids f1"
    and sub: "related_show_ids f \<subseteq> related_show_ids f1" by blast
  from Cons.IH[OF dr[unfolded w1]] have
    d: "distinct (map yield_key xs)"
    and a: "\<forall>y\<in>set xs. yield_key y \<notin> related_show_ids f1 \<and> yield_key y \<noteq> hkey r" by simp_all
  from a inn have "yield_key x \<notin> yield_key ` set xs" by auto
  with d a fresh nr sub show ?case by auto
qed

lemma walker_next_start:
  "\<not> unhashable r \<Longrightarrow>
   walker_next sel (Not_started r) nt s =
   walker_next sel (Suspended r \<lparr>pending = None, relations = [], queue = [r],
                                 related_show_ids = {hkey r}\<rparr>) nt s"
  by (simp add: walker_next_def)

lemma drain_start:
  "\<not> unhashable r \<Longrightarrow>
   drain sel (Not_started r) nt s =
   drain sel (Suspended r \<lparr>pending = None, relations = [], queue = [r],
                           related_show_ids = {hkey r}\<rparr>) nt s"
  by (subst drain_cases, subst (2) drain_cases) (simp add: walker_next_start)

lemma drain_yields_distinct:
  assumes "drain sel (get_related_media r) nt s = (ys, t)"
  shows "distinct (map yield_key ys) \<and> hkey r \<notin> yield_key ` set ys"
proof (cases "unhashable r")
  case True
  with assms have "ys = []"
    by (subst (asm) drain_cases) (simp add: get_related_media_def walker_next_def)
  then show ?thesis by simp
next
  case False
  from assms drain_start[OF False] drain_suspended_fresh show ?thesis
    by (fastforce simp: get_related_media_def)
qed

lemma pulls_suspended_keeps_root:
  assumes "pulls n sel (Suspended r f) nt s = (xs, Suspended r' f', nt', s')"
  shows "r' = r \<and> related_show_ids f \<subseteq> related_show_ids f'
       \<and> yield_key ` set xs \<subseteq> related_show_ids f'"
  using assms
proof (induction n arbitrary: f nt s xs)
  case 0
  then show ?case by simp
next
  case (Suc n)
  obtain x w1 nt1 s1 where nx: "run_loop sel r f nt s = (x, w1, nt1, s1)"
    by (cases "run_loop sel r f nt s") auto
  show ?case
  proof (cases "\<exists>y. x = Returns (Some y)")
    case True
    then obtain y where y: "x = Returns (Some y)" by blast
    from run_loop_yield_fresh[OF nx[unfolded y]] obtain f1 where
      w1: "w1 = Suspended r f1" and inn: "yield_key y \<in> related_show_ids f1"
      and sub: "related_show_ids f \<subseteq> related_show_ids f1" by blast
    obtain zs where xs: "xs = y # zs"
      and rest: "pulls n sel (Suspended r f1) nt1 s1 = (zs, Suspended r' f', nt', s')"
      using Suc.prems nx y w1 by (auto simp: walker_next_def split: prod.splits)
    from Suc.IH[OF rest] inn sub xs show ?thesis by auto
  next
    case False
    then have "\<forall>y. x \<noteq> Returns (Some y)" by simp
    from run_loop_ends_finished[OF nx this] have "w1 = Finished" .
    with Suc.prems nx False show ?thesis
      by (auto simp: walker_next_def split: prod.splits res.splits option.splits)
  qed
qed

lemma pulls_keeps_root:
  assumes "pulls n sel (get_related_media r) nt s = (xs, Suspended r' f', nt', s')"
  shows "hkey r \<in> related_show_ids f' \<and> yield_key ` set xs \<subseteq> related_show_ids f'"
proof (cases n)
  case 0
  with assms show ?thesis by (simp add: get_related_media_def)
next
  case (Suc k)
  show ?thesis
  proof (cases "unhashable r")
    case True
    with assms Suc show ?thesis by (simp add: get_related_media_def walker_next_def)
  next
    case False
    let ?f0 = "\<lparr>pending = None, relations = [], queue = [r], related_show_ids = {hkey r}\<rparr>"
    have "pulls (Suc k) sel (Not_started r) nt s = pulls (Suc k) sel (Suspended r ?f0) nt s"
      by (simp add: walker_next_start[OF False])
    with assms Suc have "pulls (Suc k) sel (Suspended r ?f0) nt s = (xs, Suspended r' f', nt', s')"
      by (simp add: get_related_media_def)
    from pulls_suspended_keeps_root[OF this] show ?thesis by simp
  qed
qed

text \<open>
  Claim C1. In one walk, over any answers of the API (a cyclic graph included):
  \<^item> every step of the generator leaves \<^verbatim>\<open>related_show_ids\<close> as it was or larger, and an id
    that is new in the queue (or pending for it) after the step is one that the step has
    just added to \<^verbatim>\<open>related_show_ids\<close>: an id already visited never enters the queue again;
  \<^item> a step yields only a node whose id was not in \<^verbatim>\<open>related_show_ids\<close> and is not the
    start's;
  \<^item> the nodes yielded by the whole walk have pairwise different ids, none of them the
    start's;
  \<^item> wherever the generator is suspended, the start's id and the ids of the nodes yielded
    so far are in \<^verbatim>\<open>related_show_ids\<close>.
\<close>

theorem visited_grows_and_yields_once:
  "(step sel r f nt s = (Returns (a, f'), nt', s') \<longrightarrow>
      related_show_ids f \<subseteq> related_show_ids f'
      \<and> frontier f' - frontier f \<subseteq> related_show_ids f' - related_show_ids f
      \<and> (\<forall>m. a = Yield m \<longrightarrow> yield_key m \<notin> related_show_ids f \<and> yield_key m \<noteq> hkey r))
   \<and> (drain sel (get_related_media r) nt s = (ys, t) \<longrightarrow>
      distinct (map yield_key ys) \<and> hkey r \<notin> yield_key ` set ys)
   \<and> (pulls n sel (get_related_media r) nt s = (xs, Suspended r' f0, nt0, s0) \<longrightarrow>
      hkey r \<in> related_show_ids f0 \<and> yield_key ` set xs \<subseteq> related_show_ids f0)"
proof (intro conjI impI allI)
  assume st: "step sel r f nt s = (Returns (a, f'), nt', s')"
  from step_monotone[OF st]
  show "related_show_ids f \<subseteq> related_show_ids f'"
    and "frontier f' - frontier f \<subseteq> related_show_ids f' - related_show_ids f"
    by simp_all
  fix m assume "a = Yield m"
  with step_yield_facts[of sel r f nt s m f' nt' s'] st
  show "yield_key m \<notin> related_show_ids f" and "yield_key m \<noteq> hkey r"
    by (auto simp: yield_key_def)
next
  assume dr: "drain sel (get_related_media r) nt s = (ys, t)"
  from drain_yields_distinct[OF dr]
  show "distinct (map yield_key ys)" and "hkey r \<notin> yield_key ` set ys"
    by simp_all
next
  assume pl: "pulls n sel (get_related_media r) nt s = (xs, Suspended r' f0, nt0, s0)"
  from pulls_keeps_root[OF pl]
  show "hkey r \<in> related_show_ids f0" and "yield_key ` set xs \<subseteq> related_show_ids f0"
    by simp_all
qed

theorem visited_grows_and_yields_once_witness:
  "drain first_queued (get_related_media (JInt 1))
       [relations_answer ex_cycle, relations_answer ex_cycle] st0 =
     ([node_json 2 []], Returns (), Finished, [],
      \<lparr>total_queries = 2,
       trace = [Post (relations_request (JInt 1)), Sleep_ms 100,
                Post (relations_request (JInt 2)), Sleep_ms 100]\<rparr>)
   \<and> distinct (map yield_key [node_json 2 []])
   \<and> hkey (JInt 1) \<notin> yield_key ` set [node_json 2 []]"
  using visited_grows_and_yields_once
          [where sel = first_queued and r = "JInt 1" and s = st0
             and nt = "[relations_answer ex_cycle, relations_answer ex_cycle]"
             and ys = "[node_json 2 []]"
             and t = "(Returns (), Finished, [],
                       \<lparr>total_queries = 2,
                        trace = [Post (relations_request (JInt 1)), Sleep_ms 100,
                                 Post (relations_request (JInt 2)), Sleep_ms 100]\<rparr>)"]
        ex_cycle_walk
  by blast

section \<open>Properties of the main program\<close>

lemma display_title_media_ref:
  "display_title (media_ref i english romaji) = Inr (if truthy english then english else romaji)"
  by (simp add: display_title_def media_ref_def)

lemma check_shows_matched:
  assumes "async_any sel u (get_related_media i) nt s = (Returns True, w, nt', s')"
  shows "check_shows sel u (media_ref i english romaji # shows) nt s =
           check_shows sel u shows nt'
             (emit [Print_title (if truthy english then english else romaji)] s')"
proof -
  have "py_getitem (media_ref i english romaji) ''id'' = Inr i"
    by (simp add: media_ref_def)
  with assms show ?thesis
    by (simp add: display_title_media_ref)
qed

lemma check_shows_unmatched:
  assumes "async_any sel u (get_related_media i) nt s = (Returns False, w, nt', s')"
  shows "check_shows sel u (media_ref i english romaji # shows) nt s =
           check_shows sel u shows nt' s'"
proof -
  have "py_getitem (media_ref i english romaji) ''id'' = Inr i"
    by (simp add: media_ref_def)
  with assms show ?thesis by simp
qed

text \<open>
  Claim C10. In the loop over the shows of a season, a show whose walk has a match is
  printed, and what is printed is its English title when that title counts as true (a
  non-empty string) and its romaji title otherwise: for a null English title and for the
  empty string the romaji title is printed. A show without a match prints nothing.
\<close>

theorem printed_title_falls_back_on_falsy_english:
  "(async_any sel u (get_related_media i) nt s = (Returns True, w, nt', s') \<longrightarrow>
      check_shows sel u (media_ref i english romaji # shows) nt s =
        check_shows sel u shows nt'
          (emit [Print_title (if truthy english then english else romaji)] s')
      \<and> check_shows sel u [media_ref i (JStr (c # cs)) romaji] nt s =
          (Returns (), nt', emit [Print_title (JStr (c # cs))] s')
      \<and> check_shows sel u [media_ref i JNull romaji] nt s =
          (Returns (), nt', emit [Print_title romaji] s')
      \<and> check_shows sel u [media_ref i (JStr []) romaji] nt s =
          (Returns (), nt', emit [Print_title romaji] s'))
   \<and> (async_any sel u (get_related_media i) nt s = (Returns False, w, nt', s') \<longrightarrow>
      check_shows sel u (media_ref i english romaji # shows) nt s =
        check_shows sel u shows nt' s')"
proof (intro conjI impI)
  assume m: "async_any sel u (get_related_media i) nt s = (Returns True, w, nt', s')"
  show "check_shows sel u (media_ref i english romaji # shows) nt s =
        check_shows sel u shows nt'
          (emit [Print_title (if truthy english then english else romaji)] s')"
    by (rule check_shows_matched[OF m])
  show "check_shows sel u [media_ref i (JStr (c # cs)) romaji] nt s =
          (Returns (), nt', emit [Print_title (JStr (c # cs))] s')"
    using check_shows_matched[OF m, of "JStr (c # cs)" romaji "[]"] by simp
  show "check_shows sel u [media_ref i JNull romaji] nt s =
          (Returns (), nt', emit [Print_title romaji] s')"
    using check_shows_matched[OF m, of JNull romaji "[]"] by simp
  show "check_shows sel u [media_ref i (JStr []) romaji] nt s =
          (Returns (), nt', emit [Print_title romaji] s')"
    using check_shows_matched[OF m, of "JStr []" romaji "[]"] by simp
next
  assume "async_any sel u (get_related_media i) nt s = (Returns False, w, nt', s')"
  then show "check_shows sel u (media_ref i english romaji # shows) nt s =
        check_shows sel u shows nt' s'"
    by (rule check_shows_unmatched)
qed

lemma ex_three_match:
  "async_any first_queued {JInt 42} (get_related_media (JInt 0)) [relations_answer ex_three] st0 =
     (Returns True,
      Suspended (JInt 0)
        \<lparr>pending = Some (edge_json ''SIDE_STORY'' 42 [], node_json 42 []),
         relations = [edge_json ''SIDE_STORY'' 999 []], queue = [],
         related_show_ids = {JInt 42, JInt 1, JInt 0}\<rparr>,
      [], \<lparr>total_queries = 1, trace = [Post (relations_request (JInt 0)), Sleep_ms 100]\<rparr>)"
proof (rule async_any_first_match[where ys = "[node_json 1 []]" and y = "node_json 42 []"])
  show "pulls (Suc (length [node_json 1 []])) first_queued (get_related_media (JInt 0))
          [relations_answer ex_three] st0 =
        ([node_json 1 []] @ [node_json 42 []],
         Suspended (JInt 0)
           \<lparr>pending = Some (edge_json ''SIDE_STORY'' 42 [], node_json 42 []),
            relations = [edge_json ''SIDE_STORY'' 999 []], queue = [],
            related_show_ids = {JInt 42, JInt 1, JInt 0}\<rparr>,
         [], \<lparr>total_queries = 1, trace = [Post (relations_request (JInt 0)), Sleep_ms 100]\<rparr>)"
    using ex_three_pulls by (simp add: numeral_2_eq_2)
  show "\<forall>x\<in>set [node_json 1 []]. \<not> in_user_set {JInt 42} x"
    by (simp add: in_user_set_def yield_key_def)
  show "in_user_set {JInt 42} (node_json 42 [])"
    by (simp add: in_user_set_def yield_key_def)
qed

theorem printed_title_falls_back_on_falsy_english_witness:
  "check_shows first_queued {JInt 42} [media_ref (JInt 0) JNull (JStr ''Romaji'')]
       [relations_answer ex_three] st0 =
     (Returns (), [],
      \<lparr>total_queries = 1,
       trace = [Post (relations_request (JInt 0)), Sleep_ms 100,
                Print_title (JStr ''Romaji'')]\<rparr>)"
  using printed_title_falls_back_on_falsy_english
          [where sel = first_queued and u = "{JInt 42}" and i = "JInt 0"
             and nt = "[relations_answer ex_three]" and s = st0 and nt' = "[]"
             and s' = "\<lparr>total_queries = 1,
                         trace = [Post (relations_request (JInt 0)), Sleep_ms 100]\<rparr>"
             and w = "Suspended (JInt 0)
                        \<lparr>pending = Some (edge_json ''SIDE_STORY'' 42 [], node_json 42 []),
                         relations = [edge_json ''SIDE_STORY'' 999 []], queue = [],
                         related_show_ids = {JInt 42, JInt 1, JInt 0}\<rparr>"
             and romaji = "JStr ''Romaji''"]
        ex_three_match
  by (simp add: emit_def)

lemma status_ids_step:
  "ids_by_status user_id (status # statuses) nt s =
     (case status_ids user_id status nt s of
        (Returns ids, nt', s') \<Rightarrow>
          (case ids_by_status user_id statuses nt' s' of
             (Returns d, nt'', s'') \<Rightarrow> (Returns ((status, ids) # d), nt'', s'')
           | (Raises e, nt'', s'') \<Rightarrow> (Raises e, nt'', s'')
           | (Hangs, nt'', s'') \<Rightarrow> (Hangs, nt'', s''))
      | (Raises e, nt', s') \<Rightarrow> (Raises e, nt', s')
      | (Hangs, nt', s') \<Rightarrow> (Hangs, nt', s'))"
  by (simp add: status_ids_def split: prod.splits res.splits sum.splits)

lemma collect_is_union:
  assumes "get_user_id_by_name (username a) nt s = (Returns user_id, nta, sa)"
    and "status_ids user_id ''COMPLETED'' nta sa = (Returns c_ids, ntb, sb)"
    and "status_ids user_id ''PLANNING'' ntb sb = (Returns p_ids, ntc, sc)"
    and "status_ids user_id ''CURRENT'' ntc sc = (Returns w_ids, ntd, sd)"
  shows "collect_user_media_ids a nt s = (Returns (c_ids \<union> p_ids \<union> w_ids), ntd, sd)"
  using assms
  by (simp add: collect_user_media_ids_def status_ids_step Un_assoc del: ids_by_status.simps(2))

text \<open>
  Claim C8. Two runs for the same user on the same answers of the API that differ only
  in \<^verbatim>\<open>--planning\<close> and \<^verbatim>\<open>--completed\<close> compute the same \<^verbatim>\<open>user_media_ids\<close> and make the same
  report; the set is the union of the ids of the completed, the planning and the current
  list.
\<close>

theorem flags_do_not_change_user_media_ids:
  "collect_user_media_ids (a\<lparr>planning := p, completed := c\<rparr>) nt s = collect_user_media_ids a nt s
   \<and> main (a\<lparr>planning := p, completed := c\<rparr>) month year sel nt s = main a month year sel nt s
   \<and> (get_user_id_by_name (username a) nt s = (Returns user_id, nta, sa)
        \<and> status_ids user_id ''COMPLETED'' nta sa = (Returns c_ids, ntb, sb)
        \<and> status_ids user_id ''PLANNING'' ntb sb = (Returns p_ids, ntc, sc)
        \<and> status_ids user_id ''CURRENT'' ntc sc = (Returns w_ids, ntd, sd)
      \<longrightarrow> collect_user_media_ids (a\<lparr>planning := p, completed := c\<rparr>) nt s =
            (Returns (c_ids \<union> p_ids \<union> w_ids), ntd, sd))"
proof -
  have same: "collect_user_media_ids (a\<lparr>planning := p, completed := c\<rparr>) nt s =
              collect_user_media_ids a nt s"
    by (simp add: collect_user_media_ids_def)
  then have "main (a\<lparr>planning := p, completed := c\<rparr>) month year sel nt s =
             main a month year sel nt s"
    by (simp add: main_def)
  with same collect_is_union show ?thesis by auto
qed

lemmas eval_transport = rate_limit_wait_def deliver_def ok_def emit_def Let_def

lemmas eval_pages = depaginated_request_def page_loop.simps MAX_PAGE_SIZE_def extract_page_def
  other_value_def

theorem flags_do_not_change_user_media_ids_witness:
  "(\<exists>sd. collect_user_media_ids (ex_args\<lparr>planning := True, completed := True\<rparr>)
       [ex_user, ex_list_page [10, 11], ex_list_page [12], ex_list_page [10]] st0 =
     (Returns {JInt 10, JInt 11, JInt 12}, [], sd))
   \<and> collect_user_media_ids (ex_args\<lparr>planning := True, completed := True\<rparr>)
       [ex_user, ex_list_page [10, 11], ex_list_page [12], ex_list_page [10]] st0 =
     collect_user_media_ids ex_args
       [ex_user, ex_list_page [10, 11], ex_list_page [12], ex_list_page [10]] st0"
proof -
  obtain sa where h0: "get_user_id_by_name (username ex_args)
       [ex_user, ex_list_page [10, 11], ex_list_page [12], ex_list_page [10]] st0 =
     (Returns (JInt 5), [ex_list_page [10, 11], ex_list_page [12], ex_list_page [10]], sa)"
    by (simp add: get_user_id_by_name_def ex_user_def eval_transport)
  obtain sb where h1: "status_ids (JInt 5) ''COMPLETED''
       [ex_list_page [10, 11], ex_list_page [12], ex_list_page [10]] sa =
     (Returns {JInt 10, JInt 11}, [ex_list_page [12], ex_list_page [10]], sb)"
    by (simp add: status_ids_def get_user_media_def eval_pages eval_transport ex_list_page_def
          media_ref_def)
  obtain sc where h2: "status_ids (JInt 5) ''PLANNING'' [ex_list_page [12], ex_list_page [10]] sb =
     (Returns {JInt 12}, [ex_list_page [10]], sc)"
    by (simp add: status_ids_def get_user_media_def eval_pages eval_transport ex_list_page_def
          media_ref_def)
  obtain sd where h3: "status_ids (JInt 5) ''CURRENT'' [ex_list_page [10]] sc =
     (Returns {JInt 10}, [], sd)"
    by (simp add: status_ids_def get_user_media_def eval_pages eval_transport ex_list_page_def
          media_ref_def)
  from flags_do_not_change_user_media_ids
         [where a = ex_args and p = True and c = True and s = st0
            and nt = "[ex_user, ex_list_page [10, 11], ex_list_page [12], ex_list_page [10]]"
            and user_id = "JInt 5" and sa = sa and sb = sb and sc = sc and sd = sd
            and nta = "[ex_list_page [10, 11], ex_list_page [12], ex_list_page [10]]"
            and ntb = "[ex_list_page [12], ex_list_page [10]]"
            and ntc = "[ex_list_page [10]]" and ntd = "[]"
            and c_ids = "{JInt 10, JInt 11}" and p_ids = "{JInt 12}" and w_ids = "{JInt 10}"]
       h0 h1 h2 h3
  have both: "collect_user_media_ids (ex_args\<lparr>planning := True, completed := True\<rparr>)
       [ex_user, ex_list_page [10, 11], ex_list_page [12], ex_list_page [10]] st0 =
     (Returns ({JInt 10, JInt 11} \<union> {JInt 12} \<union> {JInt 10}), [], sd)
   \<and> collect_user_media_ids (ex_args\<lparr>planning := True, completed := True\<rparr>)
       [ex_user, ex_list_page [10, 11], ex_list_page [12], ex_list_page [10]] st0 =
     collect_user_media_ids ex_args
       [ex_user, ex_list_page [10, 11], ex_list_page [12], ex_list_page [10]] st0"
    by blast
  have eq: "{JInt 10, JInt 11} \<union> {JInt 12} \<union> {JInt 10} = {JInt 10, JInt 11, JInt 12}"
    by auto
  have A: "collect_user_media_ids (ex_args\<lparr>planning := True, completed := True\<rparr>)
       [ex_user, ex_list_page [10, 11], ex_list_page [12], ex_list_page [10]] st0 =
     (Returns {JInt 10, JInt 11, JInt 12}, [], sd)"
    unfolding both[THEN conjunct1] eq ..
  show ?thesis
    by (intro conjI exI[of _ sd]) (rule A, rule both[THEN conjunct2])
qed

end
